theory Spec2Isabelle
  imports Complex_Main "HOL-Library.Multiset"
begin

section \<open>Errors\<close>

text \<open>
  The exceptions the modelled code can raise.  Every \<^verbatim>\<open>raise\<close> of the source, and every
  operation of the source that raises by itself (\<^verbatim>\<open>len\<close> of an integer, a division by
  zero), is a branch of the model that returns \<open>Inl\<close> of one of these.
\<close>

datatype error = ValueError | TypeError | ZeroDivisionError | KeyError

section \<open>Floating-point numbers\<close>

text \<open>
  The bin-range functions of \<^verbatim>\<open>util/datasets.pyx\<close> compute on C \<^verbatim>\<open>float\<close>s (IEEE single
  precision) and Python floats (IEEE double precision), and their results are the
  rounded numbers themselves.  A floating-point value is a rational, an infinity, or
  not-a-number; the sign of a zero, which no operation used here can observe, is not
  kept.
\<close>

datatype fp = Fin rat | PInf | NInf | NaN

text \<open>The nearest integer, a tie going to the even one.\<close>

definition round_half_even :: "rat \<Rightarrow> int" where
  "round_half_even y =
     (let f = \<lfloor>y\<rfloor>; d = y - of_int f
      in if d < 1 / 2 then f
         else if 1 / 2 < d then f + 1
         else if even f then f else f + 1)"

text \<open>
  \<open>pow2 e\<close> is \<open>2\<^sup>e\<close>, \<open>bitlen a\<close> the number of binary digits of a positive integer, and
  \<open>ilog2 x\<close> the exponent \<open>e\<close> with \<open>2\<^sup>e \<le> x < 2\<^sup>e\<^sup>+\<^sup>1\<close> of a positive rational.
\<close>

definition pow2 :: "int \<Rightarrow> rat" where
  "pow2 e = (if 0 \<le> e then 2 ^ nat e else 1 / 2 ^ nat (- e))"

function bitlen :: "int \<Rightarrow> int" where
  "bitlen a = (if a \<le> 0 then 0 else 1 + bitlen (a div 2))"
  by pat_completeness auto
termination
  by (relation "measure nat") auto

declare bitlen.simps [simp del]

definition ilog2 :: "rat \<Rightarrow> int" where
  "ilog2 x =
     (let e = bitlen (fst (quotient_of x)) - bitlen (snd (quotient_of x))
      in if pow2 e \<le> x then e else e - 1)"

text \<open>
  Rounding of a rational to the binary format with \<open>p\<close> digits of precision and exponents
  from \<open>emin\<close> to \<open>emax\<close>, to nearest with ties to even: the spacing of the format at \<open>x\<close>
  is \<open>2\<^sup>e\<^sup>-\<^sup>p\<^sup>+\<^sup>1\<close> for the exponent \<open>e\<close> of \<open>x\<close>, and that of \<open>emin\<close> below the normal
  range; a result beyond the largest number of the format is an infinity.
\<close>

definition round_to :: "nat \<Rightarrow> int \<Rightarrow> int \<Rightarrow> rat \<Rightarrow> fp" where
  "round_to p emin emax x =
     (if x = 0 then Fin 0
      else (let e = max (ilog2 \<bar>x\<bar>) emin;
                q = pow2 (e - int p + 1);
                y = of_int (round_half_even (x / q)) * q
            in if y = 0 then Fin 0
               else if ilog2 \<bar>y\<bar> \<le> emax then Fin y
               else if 0 < x then PInf else NInf))"

definition float32 :: "rat \<Rightarrow> fp" where
  "float32 = round_to 24 (- 126) 127"

definition float64 :: "rat \<Rightarrow> fp" where
  "float64 = round_to 53 (- 1022) 1023"

text \<open>
  Conversion to a format, and the arithmetic of a format: the exact result, rounded.
  The first argument is the rounding of the format.
\<close>

fun narrow :: "(rat \<Rightarrow> fp) \<Rightarrow> fp \<Rightarrow> fp" where
  "narrow rnd (Fin x) = rnd x"
| "narrow rnd v = v"

fun fp_neg :: "fp \<Rightarrow> fp" where
  "fp_neg (Fin x) = Fin (- x)"
| "fp_neg PInf = NInf"
| "fp_neg NInf = PInf"
| "fp_neg NaN = NaN"

fun fp_add :: "(rat \<Rightarrow> fp) \<Rightarrow> fp \<Rightarrow> fp \<Rightarrow> fp" where
  "fp_add rnd (Fin a) (Fin b) = rnd (a + b)"
| "fp_add rnd NaN v = NaN"
| "fp_add rnd v NaN = NaN"
| "fp_add rnd PInf NInf = NaN"
| "fp_add rnd NInf PInf = NaN"
| "fp_add rnd PInf v = PInf"
| "fp_add rnd v PInf = PInf"
| "fp_add rnd NInf v = NInf"
| "fp_add rnd v NInf = NInf"

definition fp_sub :: "(rat \<Rightarrow> fp) \<Rightarrow> fp \<Rightarrow> fp \<Rightarrow> fp" where
  "fp_sub rnd a b = fp_add rnd a (fp_neg b)"

text \<open>
  Division.  A zero divisor is taken as the positive zero; the code modelled here tests
  its divisor and never divides by zero.
\<close>

fun fp_div :: "(rat \<Rightarrow> fp) \<Rightarrow> fp \<Rightarrow> fp \<Rightarrow> fp" where
  "fp_div rnd (Fin a) (Fin b) =
     (if b \<noteq> 0 then rnd (a / b)
      else if a = 0 then NaN else if 0 < a then PInf else NInf)"
| "fp_div rnd NaN v = NaN"
| "fp_div rnd v NaN = NaN"
| "fp_div rnd (Fin a) v = Fin 0"
| "fp_div rnd PInf (Fin b) = (if 0 \<le> b then PInf else NInf)"
| "fp_div rnd NInf (Fin b) = (if 0 \<le> b then NInf else PInf)"
| "fp_div rnd v w = NaN"

text \<open>The comparisons \<^verbatim>\<open><\<close> and \<^verbatim>\<open><=\<close>; every comparison with not-a-number is false.\<close>

fun fp_less :: "fp \<Rightarrow> fp \<Rightarrow> bool" where
  "fp_less (Fin a) (Fin b) = (a < b)"
| "fp_less NaN v = False"
| "fp_less v NaN = False"
| "fp_less v NInf = False"
| "fp_less PInf v = False"
| "fp_less NInf v = True"
| "fp_less v PInf = True"

fun fp_le :: "fp \<Rightarrow> fp \<Rightarrow> bool" where
  "fp_le (Fin a) (Fin b) = (a \<le> b)"
| "fp_le NaN v = False"
| "fp_le v NaN = False"
| "fp_le NInf v = True"
| "fp_le v PInf = True"
| "fp_le v NInf = False"
| "fp_le PInf v = False"

text \<open>
  Python's \<^verbatim>\<open>round(x, 1)\<close> of a float: the exact value of \<open>x\<close> is rounded to one decimal
  with ties to even, and the result is the double nearest to that decimal; an infinity
  and not-a-number are returned as they are.
\<close>

fun py_round1 :: "fp \<Rightarrow> fp" where
  "py_round1 (Fin x) = float64 (of_int (round_half_even (10 * x)) / 10)"
| "py_round1 v = v"

text \<open>
  The conversion of a Python number to a C \<^verbatim>\<open>float\<close> parameter: to a double, then to
  single precision.
\<close>

definition c_float :: "fp \<Rightarrow> fp" where
  "c_float x = narrow float32 (narrow float64 x)"

section \<open>Bin ranges (\<^verbatim>\<open>util/datasets.pyx\<close>)\<close>

text \<open>
  The loop of \<^verbatim>\<open>get_bin_ranges\<close>, \<^verbatim>\<open>for b in range(1, nbins + 1)\<close>: the first numeric
  argument counts the iterations that remain, \<open>b\<close> is the loop variable, and the triple is
  \<^verbatim>\<open>(_bin_start, _bin_end, bin_ranges)\<close>.  The sum \<^verbatim>\<open>_bin_start + bin_size\<close> is a sum of C
  floats; adding the double \<^verbatim>\<open>1.0\<close> to it is a sum of doubles, which the assignment to
  \<^verbatim>\<open>_bin_end\<close> converts to single precision.
\<close>

fun bin_loop :: "fp \<Rightarrow> int \<Rightarrow> nat \<Rightarrow> int \<Rightarrow> fp \<times> fp \<times> (fp \<times> fp) list \<Rightarrow> (fp \<times> fp) list" where
  "bin_loop bin_size nbins 0 b (bin_start, bin_end, bin_ranges) = bin_ranges"
| "bin_loop bin_size nbins (Suc k) b (bin_start, bin_end, bin_ranges) =
     (let bin_start' = (if b \<noteq> 1 then bin_end else bin_start);
          bin_end' = (if b = nbins
                      then narrow float32
                             (fp_add float64 (fp_add float32 bin_start' bin_size) (Fin 1))
                      else fp_add float32 bin_start' bin_size)
      in bin_loop bin_size nbins k (b + 1)
           (bin_start', bin_end', bin_ranges @ [(bin_start', bin_end')]))"

text \<open>
  \<^verbatim>\<open>get_bin_ranges(float _min, float _max, int nbins)\<close>.  \<open>nbins\<close> is the value of the C
  \<^verbatim>\<open>int\<close> parameter, between \<open>-2\<^sup>3\<^sup>1\<close> and \<open>2\<^sup>3\<^sup>1 - 1\<close>.  The division by
  \<^verbatim>\<open><float>nbins\<close> is a division of C floats, the divisor being \<^verbatim>\<open>nbins\<close> rounded to
  single precision, compiled with Cython's default checks, which raise
  \<^verbatim>\<open>ZeroDivisionError\<close> when \<^verbatim>\<open>nbins\<close> is 0.  \<^verbatim>\<open>_min - 0.1\<close> is a difference of
  doubles, \<^verbatim>\<open>0.1\<close> being the double nearest to one tenth.  \<^verbatim>\<open>range(1, nbins + 1)\<close> has
  \<open>nbins\<close> elements, none when \<^verbatim>\<open>nbins\<close> is negative, and none when \<^verbatim>\<open>nbins\<close> is
  \<open>2\<^sup>3\<^sup>1 - 1\<close>, where \<^verbatim>\<open>nbins + 1\<close> wraps around to \<open>-2\<^sup>3\<^sup>1\<close>.
\<close>

definition bin_size :: "fp \<Rightarrow> fp \<Rightarrow> int \<Rightarrow> fp" where
  "bin_size mn mx nbins =
     narrow float32
       (py_round1 (fp_div float32 (fp_sub float32 mx mn) (float32 (of_int nbins))))"

definition get_bin_ranges :: "fp \<Rightarrow> fp \<Rightarrow> int \<Rightarrow> error + (fp \<times> fp) list" where
  "get_bin_ranges min_v max_v nbins =
     (let mn = c_float min_v; mx = c_float max_v
      in if nbins = 0 then Inl ZeroDivisionError
         else (let bin_start = narrow float32 (fp_sub float64 mn (float64 (1 / 10)));
                   bin_end = fp_add float32 mn (bin_size mn mx nbins)
               in Inr (bin_loop (bin_size mn mx nbins) nbins
                         (if nbins = 2 ^ 31 - 1 then 0 else nat nbins) 1
                         (bin_start, bin_end, []))))"

text \<open>
  \<^verbatim>\<open>get_bin(bin_ranges, float val)\<close>: the loop over \<^verbatim>\<open>enumerate(bin_ranges)\<close>, \<open>i\<close> being the
  index of the head of the list that is still to be visited.  The value is converted to a
  C \<^verbatim>\<open>float\<close> when the function is entered, and it is this converted value that is compared
  with the bounds; a bound is any Python number, and Python compares a float with it
  exactly.  The index \<open>i\<close> is a C \<^verbatim>\<open>int\<close>, which counts the ranges of a list of fewer than
  \<open>2\<^sup>3\<^sup>1\<close> entries without overflow.
\<close>

fun get_bin_from :: "int \<Rightarrow> (fp \<times> fp) list \<Rightarrow> fp \<Rightarrow> int" where
  "get_bin_from i [] val = - 1"
| "get_bin_from i (bin_range # rest) val =
     (if fp_less (fst bin_range) val \<and> fp_le val (snd bin_range) then i + 1
      else get_bin_from (i + 1) rest val)"

definition get_bin :: "(fp \<times> fp) list \<Rightarrow> fp \<Rightarrow> int" where
  "get_bin bin_ranges val = get_bin_from 0 bin_ranges (c_float val)"

text \<open>The test \<^verbatim>\<open>val > bin_range[0] and val <= bin_range[1]\<close> on one range.\<close>

definition in_bin :: "fp \<Rightarrow> fp \<times> fp \<Rightarrow> bool" where
  "in_bin val r \<longleftrightarrow> fp_less (fst r) val \<and> fp_le val (snd r)"

section \<open>Python values used by the sampling code (\<^verbatim>\<open>src/experiments.pyx\<close>)\<close>

text \<open>
  The numbers of the sampling code (label frequencies, quotas, shrink factors and sizes)
  are Python floats in the source.  This part of the model computes on exact rationals:
  sums, products, quotients and comparisons are the mathematical ones, and the rounding of
  the double-precision operations is not represented.  The two can differ where a
  product or a difference falls on a threshold, as \<open>freq * size\<close> on an integer or
  \<open>1 - factor\<close> on \<open>0.1\<close> or \<open>0.5\<close>; the runs the statements below evaluate stay away from
  such points.
\<close>

text \<open>
  A number that is either a Python \<^verbatim>\<open>int\<close> or a Python \<^verbatim>\<open>float\<close>: \<^verbatim>\<open>self.test_size\<close> and
  \<^verbatim>\<open>_fold_size\<close> start as integers and become floats when they are multiplied by the
  shrink factor.
\<close>

datatype pynum = PyInt int | PyFloat rat

fun num_val :: "pynum \<Rightarrow> rat" where
  "num_val (PyInt n) = of_int n"
| "num_val (PyFloat x) = x"

text \<open>Sequencing of computations that may raise.\<close>

definition and_then :: "error + 'a \<Rightarrow> ('a \<Rightarrow> error + 'b) \<Rightarrow> error + 'b" where
  "and_then m f = (case m of Inl e \<Rightarrow> Inl e | Inr x \<Rightarrow> f x)"

text \<open>
  A Python \<^verbatim>\<open>dict\<close> is an association list in insertion order: \<^verbatim>\<open>d[k] = v\<close> and
  \<^verbatim>\<open>del d[k]\<close>.
\<close>

fun dict_set :: "'k \<Rightarrow> 'v \<Rightarrow> ('k \<times> 'v) list \<Rightarrow> ('k \<times> 'v) list" where
  "dict_set k v [] = [(k, v)]"
| "dict_set k v (kv # d) = (if fst kv = k then (k, v) # d else kv # dict_set k v d)"

definition dict_del :: "'k \<Rightarrow> ('k \<times> 'v) list \<Rightarrow> ('k \<times> 'v) list" where
  "dict_del k d = filter (\<lambda>kv. fst kv \<noteq> k) d"

text \<open>The slice \<^verbatim>\<open>xs[:n]\<close> for an integer \<open>n\<close>; a negative \<open>n\<close> counts from the end.\<close>

definition slice_to :: "int \<Rightarrow> 'a list \<Rightarrow> 'a list" where
  "slice_to n xs = (if 0 \<le> n then take (nat n) xs else take (length xs - nat (- n)) xs)"

text \<open>
  \<^verbatim>\<open>nltk.FreqDist\<close>, a counter: label and count, in the order in which the labels were
  first seen.  \<^verbatim>\<open>freq\<close> is the count divided by the total, and 0 for an empty counter.
  \<^verbatim>\<open>sorted(fdist, key=lambda _label: fdist[_label])\<close> is a stable sort of the labels by
  count.
\<close>

type_synonym 'l freqdist = "('l \<times> nat) list"

fun fd_inc :: "'l \<Rightarrow> 'l freqdist \<Rightarrow> 'l freqdist" where
  "fd_inc l [] = [(l, 1)]"
| "fd_inc l (lc # fd) = (if fst lc = l then (l, Suc (snd lc)) # fd else lc # fd_inc l fd)"

definition FreqDist :: "'l list \<Rightarrow> 'l freqdist" where
  "FreqDist ls = foldl (\<lambda>fd l. fd_inc l fd) [] ls"

definition fd_count :: "'l freqdist \<Rightarrow> 'l \<Rightarrow> nat" where
  "fd_count fd l = (case map_of fd l of None \<Rightarrow> 0 | Some c \<Rightarrow> c)"

definition fd_N :: "'l freqdist \<Rightarrow> nat" where
  "fd_N fd = sum_list (map snd fd)"

definition freq :: "'l freqdist \<Rightarrow> 'l \<Rightarrow> rat" where
  "freq fd l = (if fd_N fd = 0 then 0 else of_nat (fd_count fd l) / of_nat (fd_N fd))"

definition labels_by_count :: "'l freqdist \<Rightarrow> 'l list" where
  "labels_by_count fd = sort_key (fd_count fd) (map fst fd)"

text \<open>
  \<^verbatim>\<open>np.random.RandomState(12345)\<close> and its \<^verbatim>\<open>shuffle\<close>.  The generator is not part of the
  repository; it is a parameter.  The state of a generator is the list of the lengths
  of the arrays it has shuffled since it was seeded (which fixes the random numbers it
  has consumed), and the parameter \<open>sh\<close> gives the rearranged array for a state and an
  array.  The properties below ask of it only that a shuffle rearranges.
\<close>

type_synonym 'i shuffler = "nat list \<Rightarrow> 'i list \<Rightarrow> 'i list"

definition prng_shuffle :: "'i shuffler \<Rightarrow> nat list \<Rightarrow> 'i list \<Rightarrow> 'i list \<times> nat list" where
  "prng_shuffle sh st xs = (sh st xs, st @ [length xs])"

definition permuting :: "'i shuffler \<Rightarrow> bool" where
  "permuting sh \<longleftrightarrow> (\<forall>st xs. mset (sh st xs) = mset xs)"

section \<open>The corpus and the constructor's arguments\<close>

text \<open>
  A document of the collection, as far as the sampling code reads it: its \<^verbatim>\<open>id_string\<close>,
  its \<^verbatim>\<open>game\<close>, and the outcome of
  \<^verbatim>\<open>compute_label_value(get_label_in_doc(doc, label), label, ...)\<close> under the constructor's
  transformation options (\<^verbatim>\<open>compute_label_value\<close> is imported from a module that is not
  among the sources): an error, \<^verbatim>\<open>None\<close>, or a label value.
\<close>

record ('i, 'l) doc =
  id_string :: 'i
  game :: string
  label_value :: "error + 'l option"

text \<open>
  What the code takes from outside: the collection \<^verbatim>\<open>db\<close> in cursor order, the tables
  \<^verbatim>\<open>APPID_DICT\<close> and \<^verbatim>\<open>LABELS\<close>, the imported \<^verbatim>\<open>validate_bin_ranges\<close> (true when it
  returns without raising), the shuffle of the random generator, and whether the array
  library accepts a float as a slice bound (it then truncates it) or raises
  \<^verbatim>\<open>TypeError\<close>.
\<close>

record ('i, 'l) env =
  db :: "('i, 'l) doc list"
  APPID_DICT :: "string list"
  LABELS :: "string list"
  validate_bin_ranges :: "(rat \<times> rat) list \<Rightarrow> bool"
  shuffle :: "'i shuffler"
  float_slice_ok :: bool

text \<open>The arguments of \<^verbatim>\<open>ExperimentalData.__init__\<close>; sets of games are lists.\<close>

record params =
  prediction_label :: string
  games :: "string list"
  folds :: int
  fold_size :: int
  grid_search_folds :: int
  grid_search_fold_size :: int
  test_games :: "string list option"
  test_size :: int
  sampling :: string
  bin_ranges :: "(rat \<times> rat) list option"
  test_bin_ranges :: "(rat \<times> rat) list option"
  lognormal :: bool
  power_transform :: "rat option"
  batch_size :: int

text \<open>Truth values of optional lists and numbers, as Python's \<^verbatim>\<open>if x:\<close> takes them.\<close>

definition truthy_list :: "'a list option \<Rightarrow> bool" where
  "truthy_list x = (case x of None \<Rightarrow> False | Some xs \<Rightarrow> xs \<noteq> [])"

definition truthy_num :: "rat option \<Rightarrow> bool" where
  "truthy_num x = (case x of None \<Rightarrow> False | Some v \<Rightarrow> v \<noteq> 0)"

text \<open>\<^verbatim>\<open>self.test_games = test_games if test_games else self.games\<close>\<close>

definition self_test_games :: "params \<Rightarrow> string list" where
  "self_test_games p = (case test_games p of None \<Rightarrow> games p
                        | Some tg \<Rightarrow> if tg \<noteq> [] then tg else games p)"

definition games_test_games_equal :: "params \<Rightarrow> bool" where
  "games_test_games_equal p \<longleftrightarrow> set (self_test_games p) = set (games p)"

text \<open>
  The validation at the head of \<^verbatim>\<open>__init__\<close>, in the order of the source.  Every failure
  is a \<^verbatim>\<open>ValueError\<close>.  In the branch for differing game sets the test on
  \<^verbatim>\<open>test_size\<close> is \<^verbatim>\<open>test_size < 0\<close>.
\<close>

definition init_validate :: "('i, 'l) env \<Rightarrow> params \<Rightarrow> error + unit" where
  "init_validate e p =
     (if games p = [] then Inl ValueError
      else if list_ex (\<lambda>g. g \<notin> set (APPID_DICT e)) (games p @ self_test_games p)
        then Inl ValueError
      else if batch_size p < 1 then Inl ValueError
      else if list_ex (\<lambda>v. v < 0)
                [folds p, fold_size p, grid_search_folds p, grid_search_fold_size p, test_size p]
        then Inl ValueError
      else if \<not> games_test_games_equal p \<and> test_size p < 0 then Inl ValueError
      else if \<not> games_test_games_equal p \<and> truthy_list (bin_ranges p)
                \<and> \<not> truthy_list (test_bin_ranges p) then Inl ValueError
      else if \<not> games_test_games_equal p \<and> truthy_list (bin_ranges p)
                \<and> length (case bin_ranges p of None \<Rightarrow> [] | Some b \<Rightarrow> b)
                    \<noteq> length (case test_bin_ranges p of None \<Rightarrow> [] | Some b \<Rightarrow> b)
        then Inl ValueError
      else if \<not> games_test_games_equal p \<and> \<not> truthy_list (bin_ranges p)
                \<and> truthy_list (test_bin_ranges p) then Inl ValueError
      else if sampling p \<notin> {''even'', ''stratified''} then Inl ValueError
      else Inr ())"

section \<open>The distribution of the labels\<close>

text \<open>
  The loop of \<^verbatim>\<open>distributional_info\<close> over the cursor: a document whose label value
  cannot be computed raises, a document whose label value is \<^verbatim>\<open>None\<close> is skipped.
\<close>

fun collect_samples :: "('i, 'l) doc list \<Rightarrow> error + ('i \<times> 'l) list" where
  "collect_samples [] = Inr []"
| "collect_samples (d # docs) =
     (case label_value d of
        Inl e \<Rightarrow> Inl e
      | Inr None \<Rightarrow> collect_samples docs
      | Inr (Some v) \<Rightarrow>
          (case collect_samples docs of
             Inl e \<Rightarrow> Inl e
           | Inr samples \<Rightarrow> Inr ((id_string d, v) # samples)))"

text \<open>The dictionary comprehension \<^verbatim>\<open>{doc['id_string']: doc[label] for doc in samples}\<close>.\<close>

definition dict_of :: "('k \<times> 'v) list \<Rightarrow> ('k \<times> 'v) list" where
  "dict_of kvs = foldl (\<lambda>d kv. dict_set (fst kv) (snd kv) d) [] kvs"

text \<open>
  \<^verbatim>\<open>distributional_info(db, label, games, **kwargs)\<close> as \<^verbatim>\<open>ExperimentalData\<close> calls it:
  \<^verbatim>\<open>partition\<close> and \<^verbatim>\<open>limit\<close> keep their defaults, so their checks pass.  The query selects
  the documents of the given games.
\<close>

definition distributional_info ::
  "('i, 'l) env \<Rightarrow> params \<Rightarrow> string list \<Rightarrow> error + (('i \<times> 'l) list \<times> 'l freqdist)" where
  "distributional_info e p gs =
     (if prediction_label p \<notin> set (LABELS e) then Inl ValueError
      else if list_ex (\<lambda>g. g \<notin> set (APPID_DICT e)) gs then Inl ValueError
      else if lognormal p \<and> truthy_num (power_transform p) then Inl ValueError
      else if batch_size p < 1 then Inl ValueError
      else if truthy_list (bin_ranges p)
                \<and> \<not> validate_bin_ranges e (case bin_ranges p of None \<Rightarrow> [] | Some b \<Rightarrow> b)
        then Inl ValueError
      else and_then (collect_samples (filter (\<lambda>d. game d \<in> set gs) (db e)))
             (\<lambda>samples. if samples = [] then Inl ValueError
                         else Inr (dict_of samples, FreqDist (map snd samples))))"

section \<open>Sampling\<close>

text \<open>
  The identifiers of one label, sorted:
  \<^verbatim>\<open>np.array([_id for _id in d if d[_id] == label])\<close> followed by \<^verbatim>\<open>.sort()\<close>.
\<close>

definition label_ids :: "('i::linorder \<times> 'l) list \<Rightarrow> 'l \<Rightarrow> 'i list" where
  "label_ids d label = sort (map fst (filter (\<lambda>kv. snd kv = label) d))"

text \<open>
  The first loop of the stratified branch, which \<^verbatim>\<open>_make_test_set\<close> and
  \<^verbatim>\<open>_generate_training_fold\<close> both contain: over the labels in ascending order of count
  it shuffles the label's identifiers, stores them in \<^verbatim>\<open>labels_ids\<close>, and lowers
  \<^verbatim>\<open>factor\<close> when fewer identifiers are there than \<open>ceil(freq * size)\<close>.  The accumulator
  is the generator's state, \<^verbatim>\<open>factor\<close> and \<^verbatim>\<open>labels_ids\<close>.
\<close>

fun stratified_scan ::
  "'i shuffler \<Rightarrow> 'l freqdist \<Rightarrow> ('i::linorder \<times> 'l) list \<Rightarrow> rat \<Rightarrow> 'l list
     \<Rightarrow> nat list \<times> rat \<times> ('l \<times> 'i list) list \<Rightarrow> nat list \<times> rat \<times> ('l \<times> 'i list) list" where
  "stratified_scan sh fd d sz [] acc = acc"
| "stratified_scan sh fd d sz (label # rest) (st, factor, labels_ids) =
     (let shuffled = prng_shuffle sh st (label_ids d label);
          all_label_ids = fst shuffled;
          n_label_data = \<lceil>freq fd label * sz\<rceil>;
          n_label_data_actual = int (length (slice_to n_label_data all_label_ids));
          factor' =
            (if n_label_data_actual < n_label_data
             then (let new_factor =
                         1 - of_int (n_label_data - n_label_data_actual) / of_int n_label_data
                   in if new_factor < factor then new_factor else factor)
             else factor)
      in stratified_scan sh fd d sz rest
           (snd shuffled, factor', dict_set label all_label_ids labels_ids))"

text \<open>
  The second loop of the stratified branch, \<^verbatim>\<open>for label in labels_ids\<close>: the first
  \<open>ceil(freq * size)\<close> identifiers of every label, for the size that may have been shrunk.
\<close>

definition stratified_draw :: "'l freqdist \<Rightarrow> rat \<Rightarrow> ('l \<times> 'i list) list \<Rightarrow> 'i list" where
  "stratified_draw fd sz labels_ids =
     concat (map (\<lambda>entry. slice_to \<lceil>freq fd (fst entry) * sz\<rceil> (snd entry)) labels_ids)"

text \<open>
  The loop of the even branch, which both functions contain as well.  \<open>n_label_data\<close> is
  \<open>ceil(size / len(fdist))\<close>, the same in every iteration.  \<^verbatim>\<open>n_label_min\<close> is \<^verbatim>\<open>None\<close>
  at first; while it is \<^verbatim>\<open>None\<close> or 0 the label at hand sets it to the number of
  identifiers it can give, and if that number is 0 the loop is left (result \<open>None\<close>; the
  two callers differ in what they do then).  Every label adds its first
  \<^verbatim>\<open>n_label_min\<close> identifiers.
\<close>

fun even_scan ::
  "'i shuffler \<Rightarrow> ('i::linorder \<times> 'l) list \<Rightarrow> int \<Rightarrow> 'l list
     \<Rightarrow> nat list \<times> int option \<times> 'i list \<Rightarrow> (nat list \<times> 'i list) option" where
  "even_scan sh d n_label_data [] (st, n_label_min, drawn) = Some (st, drawn)"
| "even_scan sh d n_label_data (label # rest) (st, n_label_min, drawn) =
     (let shuffled = prng_shuffle sh st (label_ids d label);
          all_label_ids = fst shuffled;
          n_label_data_actual = int (length (slice_to n_label_data all_label_ids));
          n_label_min' =
            (if n_label_min = None \<or> n_label_min = Some 0
             then (if n_label_data_actual = 0 then None else Some n_label_data_actual)
             else n_label_min)
      in case n_label_min' of
           None \<Rightarrow> None
         | Some m \<Rightarrow> even_scan sh d n_label_data rest
                       (snd shuffled, Some m, drawn @ slice_to m all_label_ids))"

text \<open>
  The end of both functions: the drawn identifiers are sorted, shuffled, and cut to the
  size when there are more of them.  The size is a float when it was shrunk, and the cut
  then depends on the array library.
\<close>

definition float_to_int :: "rat \<Rightarrow> int" where
  "float_to_int x = (if 0 \<le> x then \<lfloor>x\<rfloor> else \<lceil>x\<rceil>)"

definition sort_shuffle_cut ::
  "('i::linorder, 'l) env \<Rightarrow> nat list \<Rightarrow> 'i list \<Rightarrow> pynum \<Rightarrow> error + 'i list" where
  "sort_shuffle_cut e st drawn sz =
     (let arr = fst (prng_shuffle (shuffle e) st (sort drawn))
      in if num_val sz < of_nat (length arr)
         then (case sz of
                 PyInt n \<Rightarrow> Inr (slice_to n arr)
               | PyFloat x \<Rightarrow>
                   if float_slice_ok e then Inr (slice_to (float_to_int x) arr)
                   else Inl TypeError)
         else Inr arr)"

text \<open>
  \<^verbatim>\<open>_make_test_set\<close>.  It returns the test set (\<^verbatim>\<open>None\<close> when the dictionary of the test
  games is empty), the new value of \<^verbatim>\<open>self.test_size\<close>, and the dictionary and the
  distribution it caches in \<^verbatim>\<open>self\<close> when the test games are the training games.  In the
  stratified branch the function raises when \<open>factor < 1.0\<close> and \<open>1.0 - factor < 0.5\<close>.
\<close>

definition make_test_set ::
  "('i::linorder, 'l) env \<Rightarrow> params
     \<Rightarrow> error + ('i list option \<times> pynum \<times> (('i \<times> 'l) list \<times> 'l freqdist) option)" where
  "make_test_set e p =
     and_then (distributional_info e p (self_test_games p))
       (\<lambda>info.
          let id_strings_labels_test = fst info;
              labels_fdist_test = snd info;
              cached = (if games_test_games_equal p then Some info else None)
          in if id_strings_labels_test = [] then Inr (None, PyInt (test_size p), cached)
             else if sampling p = ''stratified'' then
               (let scan = stratified_scan (shuffle e) labels_fdist_test id_strings_labels_test
                             (of_int (test_size p)) (labels_by_count labels_fdist_test)
                             ([], 1, []);
                    st = fst scan;
                    factor = fst (snd scan);
                    labels_ids = snd (snd scan)
                in if factor < 1 \<and> 1 - factor < 1 / 2 then Inl ValueError
                   else (let sz = (if factor < 1 then PyFloat (factor * of_int (test_size p))
                                     else PyInt (test_size p))
                         in and_then
                              (sort_shuffle_cut e st
                                 (stratified_draw labels_fdist_test (num_val sz) labels_ids) sz)
                              (\<lambda>test_set. Inr (Some test_set, sz, cached))))
             else
               (case even_scan (shuffle e) id_strings_labels_test
                       \<lceil>(of_int (test_size p) :: rat) / of_nat (length labels_fdist_test)\<rceil>
                       (labels_by_count labels_fdist_test) ([], None, []) of
                  None \<Rightarrow> Inl ValueError
                | Some res \<Rightarrow>
                    and_then (sort_shuffle_cut e (fst res) (snd res) (PyInt (test_size p)))
                      (\<lambda>test_set. Inr (Some test_set, PyInt (test_size p), cached))))"

text \<open>
  The last loop of \<^verbatim>\<open>_generate_training_fold\<close>, \<^verbatim>\<open>del self.id_strings_labels[_id]\<close> for
  every identifier of the fold; deleting a key that is not there raises \<^verbatim>\<open>KeyError\<close>.
\<close>

fun del_all :: "'k list \<Rightarrow> ('k \<times> 'v) list \<Rightarrow> error + ('k \<times> 'v) list" where
  "del_all [] d = Inr d"
| "del_all (k # ks) d = (if k \<in> fst ` set d then del_all ks (dict_del k d) else Inl KeyError)"

text \<open>
  \<^verbatim>\<open>_generate_training_fold(_fold_size, n_folds_collected, n_folds_needed)\<close>, with the two
  attributes it reads, \<^verbatim>\<open>self.labels_fdist\<close> and \<^verbatim>\<open>self.id_strings_labels\<close>, as arguments;
  it returns the fold and the new \<^verbatim>\<open>self.id_strings_labels\<close>.  In the stratified branch,
  when \<open>factor < 1.0\<close>, \<open>n_folds_needed != 1\<close> and \<open>1.0 - factor < 0.1\<close>, the source
  evaluates \<^verbatim>\<open>len(n_folds_collected)\<close> on an integer, which raises \<^verbatim>\<open>TypeError\<close>.  An
  empty fold that is returned early leaves the dictionary as it is.
\<close>

definition generate_training_fold ::
  "('i::linorder, 'l) env \<Rightarrow> params \<Rightarrow> 'l freqdist \<Rightarrow> ('i \<times> 'l) list \<Rightarrow> int \<Rightarrow> int \<Rightarrow> int
     \<Rightarrow> error + ('i list \<times> ('i \<times> 'l) list)" where
  "generate_training_fold e p labels_fdist id_strings_labels fold_sz n_folds_collected
       n_folds_needed =
     (if sampling p = ''stratified'' then
        (let scan = stratified_scan (shuffle e) labels_fdist id_strings_labels
                      (of_int fold_sz) (labels_by_count labels_fdist) ([], 1, []);
             st = fst scan;
             factor = fst (snd scan);
             labels_ids = snd (snd scan)
         in if factor < 1 \<and> n_folds_needed \<noteq> 1 \<and> 1 - factor < 1 / 10 then Inl TypeError
            else (let sz = (if factor < 1 then PyFloat (factor * of_int fold_sz)
                              else PyInt fold_sz)
                  in and_then
                       (sort_shuffle_cut e st
                          (stratified_draw labels_fdist (num_val sz) labels_ids) sz)
                       (\<lambda>fold_set. and_then (del_all fold_set id_strings_labels)
                                      (\<lambda>d. Inr (fold_set, d)))))
      else
        (case even_scan (shuffle e) id_strings_labels
                \<lceil>(of_int fold_sz :: rat) / of_nat (length labels_fdist)\<rceil>
                (labels_by_count labels_fdist) ([], None, []) of
           None \<Rightarrow> if n_folds_collected = 0 then Inl ValueError
                   else Inr ([], id_strings_labels)
         | Some res \<Rightarrow>
             and_then (sort_shuffle_cut e (fst res) (snd res) (PyInt fold_sz))
               (\<lambda>fold_set. and_then (del_all fold_set id_strings_labels)
                              (\<lambda>d. Inr (fold_set, d)))))"

section \<open>Datasets and the orchestrator\<close>

text \<open>
  The loop of \<^verbatim>\<open>_generate_dataset\<close>, \<^verbatim>\<open>for _ in range(folds)\<close>: the first numeric argument
  counts the iterations that remain; the state is \<^verbatim>\<open>self.id_strings_labels\<close>,
  \<^verbatim>\<open>training_set\<close> and \<^verbatim>\<open>folds_collected\<close>.  An empty fold ends the loop.
\<close>

fun fold_loop ::
  "('i::linorder, 'l) env \<Rightarrow> params \<Rightarrow> 'l freqdist \<Rightarrow> int \<Rightarrow> int \<Rightarrow> nat
     \<Rightarrow> ('i \<times> 'l) list \<times> 'i list list \<times> int
     \<Rightarrow> error + (('i \<times> 'l) list \<times> 'i list list \<times> int)" where
  "fold_loop e p fd fold_sz n_folds 0 acc = Inr acc"
| "fold_loop e p fd fold_sz n_folds (Suc k) (d, training_set, folds_collected) =
     (case generate_training_fold e p fd d fold_sz folds_collected n_folds of
        Inl err \<Rightarrow> Inl err
      | Inr res \<Rightarrow>
          if fst res \<noteq> []
          then fold_loop e p fd fold_sz n_folds k
                 (snd res, training_set @ [fst res], folds_collected + 1)
          else Inr (snd res, training_set, folds_collected))"

text \<open>
  \<^verbatim>\<open>_generate_dataset(grid_search)\<close>: it returns the list of folds when
  \<open>folds_collected >= 0.75 * folds\<close> and raises otherwise.
\<close>

definition generate_dataset ::
  "('i::linorder, 'l) env \<Rightarrow> params \<Rightarrow> 'l freqdist \<Rightarrow> ('i \<times> 'l) list \<Rightarrow> bool
     \<Rightarrow> error + ('i list list \<times> ('i \<times> 'l) list)" where
  "generate_dataset e p fd d grid_search =
     (let n_folds = (if grid_search then grid_search_folds p else folds p);
          fold_sz = (if grid_search then grid_search_fold_size p else fold_size p)
      in and_then (fold_loop e p fd fold_sz n_folds (nat n_folds) (d, [], 0))
           (\<lambda>res. if (3 / 4) * (of_int n_folds :: rat) \<le> of_int (snd (snd res))
                   then Inr (fst (snd res), fst res)
                   else Inl ValueError))"

text \<open>
  The loop of \<^verbatim>\<open>_construct_layered_dataset\<close> that removes the test set from the
  dictionary: \<^verbatim>\<open>if _id in self.id_strings_labels: del self.id_strings_labels[_id]\<close>.
\<close>

fun del_present :: "'k list \<Rightarrow> ('k \<times> 'v) list \<Rightarrow> ('k \<times> 'v) list" where
  "del_present [] d = d"
| "del_present (k # ks) d = del_present ks (if k \<in> fst ` set d then dict_del k d else d)"

text \<open>The attributes of a constructed \<^verbatim>\<open>ExperimentalData\<close> object that the code sets.\<close>

record ('i, 'l) experimental_data =
  test_set :: "'i list option"
  training_set :: "'i list list"
  grid_search_set :: "'i list list option"
  num_datasets :: nat
  id_strings_labels :: "('i \<times> 'l) list"
  labels_fdist :: "'l freqdist"

text \<open>
  \<^verbatim>\<open>_construct_layered_dataset\<close>.  \<^verbatim>\<open>self.test_set\<close> is the empty array unless a test set
  is made; \<^verbatim>\<open>self.training_set\<close> and \<^verbatim>\<open>self.grid_search_set\<close> are \<^verbatim>\<open>None\<close> unless their
  number of folds is not 0.  The last statement, \<^verbatim>\<open>len(self.training_set)\<close>, raises
  \<^verbatim>\<open>TypeError\<close> on \<^verbatim>\<open>None\<close>, as does the loop over a test set that is \<^verbatim>\<open>None\<close>.
  (\<^verbatim>\<open>_generate_labels_dict\<close>, whose result no sampling code reads and which cannot raise,
  is left out.)
\<close>

definition construct_layered_dataset ::
  "('i::linorder, 'l) env \<Rightarrow> params \<Rightarrow> error + ('i, 'l) experimental_data" where
  "construct_layered_dataset e p =
     and_then (if test_size p \<noteq> 0 then make_test_set e p
               else Inr (Some [], PyInt (test_size p), None))
       (\<lambda>made.
     and_then (case snd (snd made) of
                 None \<Rightarrow> distributional_info e p (games p)
               | Some info \<Rightarrow> if fst info \<noteq> [] \<and> snd info \<noteq> [] then Inr info
                              else distributional_info e p (games p))
       (\<lambda>info.
     and_then (if num_val (fst (snd made)) \<noteq> 0
                    \<and> list_ex (\<lambda>g. g \<in> set (games p)) (self_test_games p)
               then (case fst made of
                       None \<Rightarrow> Inl TypeError
                     | Some ts \<Rightarrow> Inr (del_present ts (fst info)))
               else Inr (fst info))
       (\<lambda>d1.
     and_then (if folds p \<noteq> 0
               then and_then (generate_dataset e p (snd info) d1 False)
                      (\<lambda>res. Inr (Some (fst res), snd res))
               else Inr (None, d1))
       (\<lambda>main.
     and_then (if grid_search_folds p \<noteq> 0
               then and_then (generate_dataset e p (snd info) (snd main) True)
                      (\<lambda>res. Inr (Some (fst res), snd res))
               else Inr (None, snd main))
       (\<lambda>grid.
          case fst main of
            None \<Rightarrow> Inl TypeError
          | Some ts \<Rightarrow>
              Inr \<lparr> test_set = fst made, training_set = ts, grid_search_set = fst grid,
                    num_datasets = length ts, id_strings_labels = snd grid,
                    labels_fdist = snd info \<rparr>)))))"

text \<open>\<^verbatim>\<open>ExperimentalData.__init__\<close>: validation, then the construction.\<close>

definition ExperimentalData ::
  "('i::linorder, 'l) env \<Rightarrow> params \<Rightarrow> error + ('i, 'l) experimental_data" where
  "ExperimentalData e p = and_then (init_validate e p) (\<lambda>_. construct_layered_dataset e p)"

section \<open>Predicates used in the statements\<close>

text \<open>
  The invariant of \<^verbatim>\<open>labels_ids\<close> in the stratified branch: its keys are distinct labels,
  and the array stored for a label holds, without repetition, identifiers that the
  dictionary \<open>d\<close> maps to that label.
\<close>

definition good_entries :: "('i \<times> 'l) list \<Rightarrow> ('l \<times> 'i list) list \<Rightarrow> bool" where
  "good_entries d lids \<longleftrightarrow>
     distinct (map fst lids) \<and>
     (\<forall>entry \<in> set lids. distinct (snd entry) \<and> set (snd entry) \<subseteq> {i. (i, fst entry) \<in> set d})"

text \<open>
  All identifiers of the partitions of a constructed object, in one list: the test set,
  then the folds of the training set, then the folds of the grid search set.  The list is
  distinct exactly when no identifier occurs twice in a partition or in two partitions.
\<close>

definition partition_ids :: "('i, 'l) experimental_data \<Rightarrow> 'i list" where
  "partition_ids r =
     (case test_set r of None \<Rightarrow> [] | Some ts \<Rightarrow> ts) @ concat (training_set r)
       @ (case grid_search_set r of None \<Rightarrow> [] | Some gs \<Rightarrow> concat gs)"

text \<open>
  For the even branch: the number of identifiers of a list that the dictionary \<open>d\<close> maps
  to a label, and the number of identifiers the dictionary has for a label.
\<close>

definition count_label :: "('i \<times> 'l) list \<Rightarrow> 'l \<Rightarrow> 'i list \<Rightarrow> nat" where
  "count_label d l xs = length (filter (\<lambda>i. (i, l) \<in> set d) xs)"

definition available :: "('i::linorder \<times> 'l) list \<Rightarrow> 'l \<Rightarrow> nat" where
  "available d l = length (label_ids d l)"

section \<open>Sample inputs\<close>

text \<open>
  Concrete inputs on which the statements below are instantiated: a generator whose
  shuffle reverses the array, a document with a label value, a collection of eight
  documents of one game with four documents for each of two labels, and arguments of the
  constructor that pass its validation.
\<close>

definition reversing :: "'i shuffler" where
  "reversing st xs = rev xs"

definition sample_doc :: "string \<Rightarrow> 'l \<Rightarrow> 'i \<Rightarrow> ('i, 'l) doc" where
  "sample_doc g l i = \<lparr> id_string = i, game = g, label_value = Inr (Some l) \<rparr>"

definition sample_db :: "(nat, string) doc list" where
  "sample_db = map (sample_doc ''g1'' ''A'') [1, 2, 3, 4] @ map (sample_doc ''g1'' ''B'') [5, 6, 7, 8]"

definition sample_env :: "nat shuffler \<Rightarrow> (nat, string) env" where
  "sample_env sh = \<lparr> db = sample_db, APPID_DICT = [''g1'', ''g2''], LABELS = [''hours''],
      validate_bin_ranges = (\<lambda>_. True), shuffle = sh, float_slice_ok = False \<rparr>"

definition sample_params :: params where
  "sample_params = \<lparr> prediction_label = ''hours'', games = [''g1''], folds = 2, fold_size = 2,
      grid_search_folds = 1, grid_search_fold_size = 2, test_games = None, test_size = 2,
      sampling = ''stratified'', bin_ranges = None, test_bin_ranges = None, lognormal = False,
      power_transform = None, batch_size = 50 \<rparr>"

text \<open>A dictionary with 90 identifiers of label A and 10 of label B, and its distribution.\<close>

definition pool_90_10 :: "(nat \<times> string) list" where
  "pool_90_10 = map (\<lambda>i. (i, ''A'')) [0..<90] @ map (\<lambda>i. (i, ''B'')) [90..<100]"

definition fdist_90_10 :: "string freqdist" where
  "fdist_90_10 = [(''A'', 90), (''B'', 10)]"

text \<open>
  A collection of 43 documents of one game that all have the label A, the dictionary the
  constructor makes of it, and arguments that ask for four stratified folds of 11 and for
  no test set and no grid search set.
\<close>

definition single_label_db :: "(nat, string) doc list" where
  "single_label_db = map (sample_doc ''g1'' ''A'') [1..<44]"

definition single_label_env :: "nat shuffler \<Rightarrow> (nat, string) env" where
  "single_label_env sh = (sample_env sh)\<lparr>db := single_label_db\<rparr>"

definition four_folds_params :: params where
  "four_folds_params = sample_params\<lparr>folds := 4, fold_size := 11, grid_search_folds := 0,
      test_size := 0\<rparr>"

definition single_label_pool :: "(nat \<times> string) list" where
  "single_label_pool = map (\<lambda>i. (i, ''A'')) [1..<44]"

text \<open>
  A collection in which the game of the training set has two documents of label A and
  three of label B, and a second game has two documents of label A; arguments that ask
  for \<^verbatim>\<open>sampling='even'\<close>, a test set of 4 from both games, and one fold of 4.
\<close>

definition uneven_db :: "(nat, string) doc list" where
  "uneven_db = map (sample_doc ''g1'' ''A'') [1, 2] @ map (sample_doc ''g1'' ''B'') [3, 4, 5]
                 @ map (sample_doc ''g2'' ''A'') [10, 11]"

definition uneven_env :: "nat shuffler \<Rightarrow> (nat, string) env" where
  "uneven_env sh = (sample_env sh)\<lparr>db := uneven_db\<rparr>"

definition uneven_params :: params where
  "uneven_params = sample_params\<lparr>folds := 1, fold_size := 4, grid_search_folds := 0,
      test_games := Some [''g1'', ''g2''], test_size := 4, sampling := ''even''\<rparr>"

section \<open>Properties of the bin ranges\<close>

text \<open>
  The rounding at some numbers: one tenth in both formats, an integer that single precision
  cannot hold, and a tie, which goes to the even neighbour.
\<close>

lemma float32_one_tenth: "float32 (1 / 10) = Fin (13421773 / 134217728)"
  by code_simp

lemma float64_one_tenth: "float64 (1 / 10) = Fin (3602879701896397 / 36028797018963968)"
  by code_simp

lemma float32_odd_integer: "float32 16777217 = Fin 16777216 \<and> float32 16777219 = Fin 16777220"
  by code_simp

lemma py_round1_ties: "py_round1 (Fin (1 / 4)) = float64 (1 / 5) \<and> py_round1 (Fin (3 / 4)) = float64 (4 / 5)"
  by code_simp

lemma get_bin_from_first:
  "k < length rs \<Longrightarrow> in_bin v (rs ! k) \<Longrightarrow> (\<forall>j < k. \<not> in_bin v (rs ! j))
     \<Longrightarrow> get_bin_from i rs v = i + int k + 1"
proof (induction rs arbitrary: i k)
  case Nil
  then show ?case by simp
next
  case (Cons r rs)
  show ?case
  proof (cases k)
    case 0
    with Cons.prems show ?thesis by (simp add: in_bin_def)
  next
    case (Suc k')
    from Cons.prems Suc have "\<not> in_bin v r" by auto
    moreover have "get_bin_from (i + 1) rs v = (i + 1) + int k' + 1"
    proof (rule Cons.IH)
      show "k' < length rs" using Cons.prems Suc by simp
      show "in_bin v (rs ! k')" using Cons.prems Suc by simp
      show "\<forall>j < k'. \<not> in_bin v (rs ! j)"
      proof (intro allI impI)
        fix j assume "j < k'"
        then have "Suc j < k" using Suc by simp
        with Cons.prems have "\<not> in_bin v ((r # rs) ! Suc j)" by blast
        then show "\<not> in_bin v (rs ! j)" by simp
      qed
    qed
    ultimately show ?thesis using Suc by (simp add: in_bin_def)
  qed
qed

lemma get_bin_from_range:
  "get_bin_from i rs v = - 1 \<or> (i + 1 \<le> get_bin_from i rs v \<and> get_bin_from i rs v \<le> i + int (length rs))"
proof (induction rs arbitrary: i)
  case Nil
  then show ?case by simp
next
  case (Cons r rs)
  from Cons.IH [of "i + 1"] show ?case by auto
qed

lemma get_bin_from_minus_one:
  "0 \<le> i \<Longrightarrow> get_bin_from i rs v = - 1 \<longleftrightarrow> (\<forall>r \<in> set rs. \<not> in_bin v r)"
proof (induction rs arbitrary: i)
  case Nil
  then show ?case by simp
next
  case (Cons r rs)
  from Cons.IH [of "i + 1"] Cons.prems show ?case by (auto simp: in_bin_def)
qed




text \<open>
  \<^verbatim>\<open>bin_size\<close> is the rounding of the single-precision quotient: for \<open>(0, 1.75, 5)\<close> the
  quotient is just below \<open>0.35\<close> and \<^verbatim>\<open>bin_size\<close> is \<open>0.3\<close>, and for \<open>(0, 0.25, 5)\<close> it is
  just above \<open>0.05\<close> and \<^verbatim>\<open>bin_size\<close> is \<open>0.1\<close>, each as a C float.
\<close>

lemma example_bin_size:
  "bin_size (Fin 0) (Fin (7 / 4)) 5 = float32 (3 / 10) \<and>
   bin_size (Fin 0) (Fin (1 / 4)) 5 = float32 (1 / 10)"
  by code_simp


section \<open>The claims about bin ranges\<close>




text \<open>
  C7, as the code has it.  \<^verbatim>\<open>get_bin\<close> converts the value to a C \<^verbatim>\<open>float\<close> and tests the
  converted value: for a list of fewer than \<open>2\<^sup>3\<^sup>1\<close> ranges it returns \<open>-1\<close> exactly when
  the converted value is in no range, and otherwise the 1-based position of the first
  range \<open>(low, high)\<close> with \<open>low < value \<le> high\<close> for the converted value; the result is
  always \<open>-1\<close> or a position of the list.
\<close>

theorem get_bin_first_match:
  assumes "length rs < 2 ^ 31"
  shows "(get_bin rs v = - 1 \<longleftrightarrow> (\<forall>r \<in> set rs. \<not> in_bin (c_float v) r)) \<and>
   (\<forall>k < length rs. in_bin (c_float v) (rs ! k) \<and> (\<forall>j < k. \<not> in_bin (c_float v) (rs ! j))
        \<longrightarrow> get_bin rs v = int k + 1) \<and>
   (get_bin rs v = - 1 \<or> (1 \<le> get_bin rs v \<and> get_bin rs v \<le> int (length rs)))"
  using get_bin_from_minus_one [of 0 rs "c_float v"] get_bin_from_first [of _ rs "c_float v" 0]
    get_bin_from_range [of 0 rs "c_float v"]
  by (simp add: get_bin_def)

theorem get_bin_first_match_witness:
  "length [(Fin 0, Fin 1), (Fin 1, Fin 2), (Fin 1, Fin 3)] < 2 ^ 31 \<and>
   (1::nat) < length [(Fin 0, Fin 1), (Fin 1, Fin 2), (Fin 1, Fin 3)] \<and>
   c_float (Fin (3 / 2)) = Fin (3 / 2) \<and> c_float (Fin 5) = Fin 5 \<and>
   in_bin (Fin (3 / 2)) ([(Fin 0, Fin 1), (Fin 1, Fin 2), (Fin 1, Fin 3)] ! 1) \<and>
   \<not> in_bin (Fin (3 / 2)) ([(Fin 0, Fin 1), (Fin 1, Fin 2), (Fin 1, Fin 3)] ! 0) \<and>
   get_bin [(Fin 0, Fin 1), (Fin 1, Fin 2), (Fin 1, Fin 3)] (Fin (3 / 2)) = 2 \<and>
   \<not> in_bin (Fin 5) (Fin 0, Fin 1) \<and> \<not> in_bin (Fin 5) (Fin 1, Fin 2) \<and>
   \<not> in_bin (Fin 5) (Fin 1, Fin 3) \<and>
   get_bin [(Fin 0, Fin 1), (Fin 1, Fin 2), (Fin 1, Fin 3)] (Fin 5) = - 1"
proof -
  let ?rs = "[(Fin 0, Fin 1), (Fin 1, Fin 2), (Fin 1, Fin 3)]"
  have c1: "c_float (Fin (3 / 2)) = Fin (3 / 2)" by code_simp
  have c2: "c_float (Fin 5) = Fin 5" by code_simp
  have small: "length ?rs < 2 ^ 31" by simp
  have len: "(1::nat) < length ?rs" by simp
  have hit: "in_bin (Fin (3 / 2)) (?rs ! 1)" by (simp add: in_bin_def)
  have miss0: "\<not> in_bin (Fin (3 / 2)) (?rs ! 0)" by (simp add: in_bin_def)
  then have miss: "\<forall>j < 1. \<not> in_bin (Fin (3 / 2)) (?rs ! j)" by simp
  have none3: "\<not> in_bin (Fin 5) (Fin 0, Fin 1)" "\<not> in_bin (Fin 5) (Fin 1, Fin 2)"
    "\<not> in_bin (Fin 5) (Fin 1, Fin 3)"
    by (simp_all add: in_bin_def)
  then have none: "\<forall>r \<in> set ?rs. \<not> in_bin (Fin 5) r" by simp
  from get_bin_first_match [OF small, of "Fin (3 / 2)", unfolded c1] len hit miss
  have "get_bin ?rs (Fin (3 / 2)) = int 1 + 1" by blast
  moreover from get_bin_first_match [OF small, of "Fin 5", unfolded c2] none
  have "get_bin ?rs (Fin 5) = - 1" by blast
  ultimately show ?thesis using small len hit miss0 none3 c1 c2 by simp
qed

theorem get_bin_narrowing_counterexample:
  "in_bin (Fin (3602879701896397 / 36028797018963968))
          (Fin 0, Fin (3602879701896397 / 36028797018963968)) \<and>
   get_bin [(Fin 0, Fin (3602879701896397 / 36028797018963968))]
           (Fin (3602879701896397 / 36028797018963968)) = - 1 \<and>
   \<not> in_bin (Fin 16777217) (Fin 0, Fin 16777216) \<and>
   get_bin [(Fin 0, Fin 16777216)] (Fin 16777217) = 1"
  by code_simp

text \<open>
  C8, as the code has it.  \<^verbatim>\<open>get_bin_ranges\<close> does not test \<^verbatim>\<open>nbins\<close>.  With
  \<^verbatim>\<open>nbins = 0\<close> the division raises \<^verbatim>\<open>ZeroDivisionError\<close>; with a negative \<^verbatim>\<open>nbins\<close> the
  loop body never runs and the empty list is returned, with no error.
\<close>

theorem get_bin_ranges_nbins_below_one:
  "n < 1 \<Longrightarrow> get_bin_ranges mn mx n = (if n = 0 then Inl ZeroDivisionError else Inr [])"
  by (simp add: get_bin_ranges_def Let_def)

theorem get_bin_ranges_nbins_below_one_witness:
  "(0::int) < 1 \<and> get_bin_ranges (Fin 0) (Fin 10) 0 = Inl ZeroDivisionError \<and>
   (- 3::int) < 1 \<and> get_bin_ranges (Fin 0) (Fin 10) (- 3) = Inr []"
  using get_bin_ranges_nbins_below_one [of 0 "Fin 0" "Fin 10"]
    get_bin_ranges_nbins_below_one [of "- 3" "Fin 0" "Fin 10"]
  by simp

theorem get_bin_ranges_negative_nbins_counterexample:
  "(- 1::int) < 1 \<and> get_bin_ranges (Fin 0) (Fin 10) (- 1) = Inr []"
  by (simp add: get_bin_ranges_def Let_def)

section \<open>Lemmas about the containers\<close>

lemma permuting_set: "permuting sh \<Longrightarrow> set (sh st xs) = set xs"
  by (metis permuting_def mset_eq_setD)

lemma permuting_length: "permuting sh \<Longrightarrow> length (sh st xs) = length xs"
  by (metis permuting_def mset_eq_length)

lemma permuting_distinct: "permuting sh \<Longrightarrow> distinct (sh st xs) = distinct xs"
  by (metis permuting_def mset_eq_imp_distinct_iff)

lemma set_slice_to: "set (slice_to n xs) \<subseteq> set xs"
  by (auto simp: slice_to_def dest: in_set_takeD)

lemma distinct_slice_to: "distinct xs \<Longrightarrow> distinct (slice_to n xs)"
  by (simp add: slice_to_def)

lemma length_slice_to: "0 \<le> n \<Longrightarrow> length (slice_to n xs) = min (nat n) (length xs)"
  by (simp add: slice_to_def min.commute)

lemma keys_dict_set: "fst ` set (dict_set k v d) = insert k (fst ` set d)"
  by (induction d) auto

lemma set_dict_set: "set (dict_set k v d) \<subseteq> insert (k, v) (set d)"
  by (induction d) auto

lemma distinct_dict_set: "distinct (map fst d) \<Longrightarrow> distinct (map fst (dict_set k v d))"
proof (induction d)
  case Nil
  then show ?case by simp
next
  case (Cons kv d)
  then show ?case using keys_dict_set [of k v d] by (auto simp: image_iff)
qed

lemma dict_of_foldl:
  "distinct (map fst d0) \<Longrightarrow>
     distinct (map fst (foldl (\<lambda>d kv. dict_set (fst kv) (snd kv) d) d0 kvs)) \<and>
     fst ` set (foldl (\<lambda>d kv. dict_set (fst kv) (snd kv) d) d0 kvs) = fst ` set d0 \<union> fst ` set kvs"
proof (induction kvs arbitrary: d0)
  case Nil
  then show ?case by simp
next
  case (Cons kv kvs)
  from Cons.IH [OF distinct_dict_set [OF Cons.prems, of "fst kv" "snd kv"]]
  show ?case by (simp add: keys_dict_set)
qed

lemma distinct_dict_of: "distinct (map fst (dict_of kvs))"
  using dict_of_foldl [of "[]" kvs] by (simp add: dict_of_def)

lemma keys_dict_of: "fst ` set (dict_of kvs) = fst ` set kvs"
  using dict_of_foldl [of "[]" kvs] by (simp add: dict_of_def)

lemma keys_fd_inc: "fst ` set (fd_inc l fd) = insert l (fst ` set fd)"
  by (induction fd) auto

lemma distinct_fd_inc: "distinct (map fst fd) \<Longrightarrow> distinct (map fst (fd_inc l fd))"
proof (induction fd)
  case Nil
  then show ?case by simp
next
  case (Cons lc fd)
  then show ?case using keys_fd_inc [of l fd] by (auto simp: image_iff)
qed

lemma distinct_foldl_fd_inc:
  "distinct (map fst fd) \<Longrightarrow> distinct (map fst (foldl (\<lambda>fd l. fd_inc l fd) fd ls))"
  by (induction ls arbitrary: fd) (simp_all add: distinct_fd_inc)

lemma distinct_FreqDist: "distinct (map fst (FreqDist ls))"
  using distinct_foldl_fd_inc [of "[]" ls] by (simp add: FreqDist_def)

lemma distinct_labels_by_count: "distinct (map fst fd) \<Longrightarrow> distinct (labels_by_count fd)"
  by (simp add: labels_by_count_def)

lemma collect_samples_ids:
  "collect_samples docs = Inr samples \<Longrightarrow> fst ` set samples \<subseteq> id_string ` set docs"
proof (induction docs arbitrary: samples)
  case Nil
  then show ?case by simp
next
  case (Cons d docs)
  then show ?case
    by (auto split: sum.splits option.splits) (metis (no_types, lifting) fst_conv image_subset_iff)+
qed

lemma set_label_ids: "set (label_ids d l) = {i. (i, l) \<in> set d}"
  by (auto simp: label_ids_def image_iff)

lemma distinct_label_ids: "distinct (map fst d) \<Longrightarrow> distinct (label_ids d l)"
  by (simp add: label_ids_def distinct_map_filter)

lemma keys_dict_del: "fst ` set (dict_del k d) = fst ` set d - {k}"
  by (auto simp: dict_del_def image_iff)

lemma distinct_dict_del: "distinct (map fst d) \<Longrightarrow> distinct (map fst (dict_del k d))"
  by (simp add: dict_del_def distinct_map_filter)

lemma del_all_keys:
  "del_all ks d = Inr d' \<Longrightarrow> distinct (map fst d) \<Longrightarrow>
     fst ` set d' = fst ` set d - set ks \<and> distinct (map fst d')"
proof (induction ks arbitrary: d)
  case Nil
  then show ?case by simp
next
  case (Cons k ks)
  from Cons.prems have "del_all ks (dict_del k d) = Inr d'" by (simp split: if_splits)
  from Cons.IH [OF this distinct_dict_del [OF Cons.prems(2)]]
  show ?case by (auto simp: keys_dict_del)
qed

lemma del_all_succeeds:
  "distinct ks \<Longrightarrow> set ks \<subseteq> fst ` set d \<Longrightarrow> \<exists>d'. del_all ks d = Inr d'"
proof (induction ks arbitrary: d)
  case Nil
  then show ?case by simp
next
  case (Cons k ks)
  have "set ks \<subseteq> fst ` set (dict_del k d)"
    using Cons.prems by (auto simp: keys_dict_del)
  with Cons.IH [of "dict_del k d"] Cons.prems show ?case by auto
qed

lemma del_present_keys:
  "fst ` set (del_present ks d) = fst ` set d - set ks"
proof (induction ks arbitrary: d)
  case Nil
  then show ?case by simp
next
  case (Cons k ks)
  show ?case unfolding del_present.simps Cons.IH by (auto simp: keys_dict_del)
qed

lemma distinct_del_present:
  "distinct (map fst d) \<Longrightarrow> distinct (map fst (del_present ks d))"
  by (induction ks arbitrary: d) (simp_all add: distinct_dict_del)

section \<open>Lemmas about the distribution and the sampling loops\<close>

lemma distributional_info_result:
  assumes "distributional_info e p gs = Inr (d, fd)"
  shows "distinct (map fst d)" and "distinct (map fst fd)" and "d \<noteq> []"
    and "fst ` set d \<subseteq> id_string ` {doc \<in> set (db e). game doc \<in> set gs}"
proof -
  from assms obtain samples where
    cs: "collect_samples (filter (\<lambda>d. game d \<in> set gs) (db e)) = Inr samples"
    and ne: "samples \<noteq> []"
    and d: "d = dict_of samples" and fd: "fd = FreqDist (map snd samples)"
    by (auto simp: distributional_info_def and_then_def split: if_splits sum.splits)
  show "distinct (map fst d)" by (simp add: d distinct_dict_of)
  show "distinct (map fst fd)" by (simp add: fd distinct_FreqDist)
  have "fst ` set d = fst ` set samples" by (simp add: d keys_dict_of)
  with ne show "d \<noteq> []" by (cases samples) auto
  from collect_samples_ids [OF cs] show "fst ` set d \<subseteq> id_string ` {doc \<in> set (db e). game doc \<in> set gs}"
    by (auto simp: d keys_dict_of)
qed

lemma dict_key_unique:
  "distinct (map fst d) \<Longrightarrow> (i, l) \<in> set d \<Longrightarrow> (i, l') \<in> set d \<Longrightarrow> l = l'"
  by (rule eq_key_imp_eq_value)

lemma good_entries_dict_set:
  assumes "good_entries d lids" and "distinct ids" and "set ids \<subseteq> {i. (i, l) \<in> set d}"
  shows "good_entries d (dict_set l ids lids)"
  unfolding good_entries_def
proof (intro conjI ballI)
  show "distinct (map fst (dict_set l ids lids))"
    using assms(1) by (simp add: good_entries_def distinct_dict_set)
next
  fix entry assume "entry \<in> set (dict_set l ids lids)"
  then have "entry = (l, ids) \<or> entry \<in> set lids" using set_dict_set [of l ids lids] by auto
  then show "distinct (snd entry)" using assms by (auto simp: good_entries_def)
next
  fix entry assume "entry \<in> set (dict_set l ids lids)"
  then have "entry = (l, ids) \<or> entry \<in> set lids" using set_dict_set [of l ids lids] by auto
  then show "set (snd entry) \<subseteq> {i. (i, fst entry) \<in> set d}"
    using assms by (auto simp: good_entries_def)
qed

lemma stratified_scan_good:
  assumes "permuting sh" and "distinct (map fst d)"
  shows "good_entries d lids \<Longrightarrow>
         good_entries d (snd (snd (stratified_scan sh fd d sz labels (st, f, lids))))"
proof (induction labels arbitrary: st f lids)
  case Nil
  then show ?case by simp
next
  case (Cons label rest)
  have "good_entries d (dict_set label (sh st (label_ids d label)) lids)"
  proof (rule good_entries_dict_set [OF Cons.prems])
    show "distinct (sh st (label_ids d label))"
      using assms by (simp add: permuting_distinct distinct_label_ids)
    show "set (sh st (label_ids d label)) \<subseteq> {i. (i, label) \<in> set d}"
      using assms by (simp add: permuting_set set_label_ids)
  qed
  from Cons.IH [OF this] show ?case by (simp add: Let_def prng_shuffle_def)
qed

lemma stratified_draw_good:
  assumes "distinct (map fst d)"
  shows "good_entries d lids \<Longrightarrow>
         distinct (stratified_draw fd sz lids) \<and>
         (\<forall>i \<in> set (stratified_draw fd sz lids). \<exists>entry \<in> set lids. (i, fst entry) \<in> set d)"
proof (induction lids)
  case Nil
  then show ?case by (simp add: stratified_draw_def)
next
  case (Cons entry lids)
  let ?s = "slice_to \<lceil>freq fd (fst entry) * sz\<rceil> (snd entry)"
  have unfold: "stratified_draw fd sz (entry # lids) = ?s @ stratified_draw fd sz lids"
    by (simp add: stratified_draw_def)
  from Cons.prems have good: "good_entries d lids" and fresh: "fst entry \<notin> fst ` set lids"
    and de: "distinct (snd entry)" and se: "set (snd entry) \<subseteq> {i. (i, fst entry) \<in> set d}"
    by (auto simp: good_entries_def)
  from Cons.IH [OF good] have ih1: "distinct (stratified_draw fd sz lids)"
    and ih2: "\<forall>i \<in> set (stratified_draw fd sz lids). \<exists>entry \<in> set lids. (i, fst entry) \<in> set d"
    by auto
  have s1: "distinct ?s" using de by (rule distinct_slice_to)
  have s2: "set ?s \<subseteq> {i. (i, fst entry) \<in> set d}" using se set_slice_to by fastforce
  have disj: "set ?s \<inter> set (stratified_draw fd sz lids) = {}"
  proof (rule ccontr)
    assume "set ?s \<inter> set (stratified_draw fd sz lids) \<noteq> {}"
    then obtain i where i1: "i \<in> set ?s" and i2: "i \<in> set (stratified_draw fd sz lids)" by auto
    from i1 s2 have a: "(i, fst entry) \<in> set d" by auto
    from i2 ih2 obtain entry' where e': "entry' \<in> set lids" and b: "(i, fst entry') \<in> set d"
      by auto
    from dict_key_unique [OF assms a b] have "fst entry = fst entry'" .
    with e' fresh show False by auto
  qed
  show ?case unfolding unfold using s1 s2 ih1 ih2 disj by auto
qed

lemma even_scan_good:
  assumes "permuting sh" and "distinct (map fst d)"
  shows "distinct labels \<Longrightarrow> distinct acc \<Longrightarrow>
         (\<forall>i \<in> set acc. \<exists>l. (i, l) \<in> set d \<and> l \<notin> set labels) \<Longrightarrow>
         even_scan sh d n labels (st, m, acc) = Some (st', drawn) \<Longrightarrow>
         distinct drawn \<and> set drawn \<subseteq> fst ` set d"
proof (induction labels arbitrary: st m acc)
  case Nil
  then show ?case by (auto simp: image_iff) force
next
  case (Cons label rest)
  let ?ids = "sh st (label_ids d label)"
  from Cons.prems(4) obtain m' where
    rec: "even_scan sh d n rest (st @ [length (label_ids d label)], Some m', acc @ slice_to m' ?ids)
            = Some (st', drawn)"
    by (auto simp: Let_def prng_shuffle_def split: option.splits if_splits)
  have ids1: "distinct ?ids" using assms by (simp add: permuting_distinct distinct_label_ids)
  have ids2: "set ?ids = {i. (i, label) \<in> set d}" using assms by (simp add: permuting_set set_label_ids)
  have sl: "set (slice_to m' ?ids) \<subseteq> {i. (i, label) \<in> set d}"
    using set_slice_to [of m' ?ids] ids2 by auto
  have disj: "set acc \<inter> set (slice_to m' ?ids) = {}"
  proof (rule ccontr)
    assume "set acc \<inter> set (slice_to m' ?ids) \<noteq> {}"
    then obtain i where i1: "i \<in> set acc" and i2: "i \<in> set (slice_to m' ?ids)" by auto
    from i1 Cons.prems(3) obtain l where a: "(i, l) \<in> set d" and l: "l \<notin> set (label # rest)" by auto
    from i2 sl have b: "(i, label) \<in> set d" by auto
    from dict_key_unique [OF assms(2) a b] l show False by simp
  qed
  have d': "distinct (acc @ slice_to m' ?ids)"
    using Cons.prems(2) distinct_slice_to [OF ids1] disj by simp
  have inv: "\<forall>i \<in> set (acc @ slice_to m' ?ids). \<exists>l. (i, l) \<in> set d \<and> l \<notin> set rest"
  proof
    fix i assume "i \<in> set (acc @ slice_to m' ?ids)"
    then consider "i \<in> set acc" | "i \<in> set (slice_to m' ?ids)" by auto
    then show "\<exists>l. (i, l) \<in> set d \<and> l \<notin> set rest"
    proof cases
      case 1
      with Cons.prems(3) show ?thesis by auto
    next
      case 2
      with sl have "(i, label) \<in> set d" by auto
      moreover have "label \<notin> set rest" using Cons.prems(1) by simp
      ultimately show ?thesis by blast
    qed
  qed
  from Cons.prems(1) have "distinct rest" by simp
  from Cons.IH [OF this d' inv rec] show ?case .
qed

lemma sort_shuffle_cut_sub:
  assumes "permuting (shuffle e)" and "sort_shuffle_cut e st drawn sz = Inr r"
  shows "set r \<subseteq> set drawn" and "distinct drawn \<Longrightarrow> distinct r"
proof -
  let ?arr = "shuffle e st (sort drawn)"
  have a1: "set ?arr = set drawn" using assms(1) by (simp add: permuting_set)
  have a2: "distinct ?arr = distinct drawn" using assms(1) by (simp add: permuting_distinct)
  from assms(2) have "r = ?arr \<or> (\<exists>n. r = slice_to n ?arr)"
    by (auto simp: sort_shuffle_cut_def Let_def prng_shuffle_def split: if_splits pynum.splits)
  then show "set r \<subseteq> set drawn" and "distinct drawn \<Longrightarrow> distinct r"
    using a1 a2 set_slice_to [of _ ?arr] distinct_slice_to [of ?arr] by auto
qed

section \<open>Lemmas about folds and datasets\<close>

lemma good_entries_empty: "good_entries d []"
  by (simp add: good_entries_def)

lemma cut_and_delete:
  assumes "permuting (shuffle e)" and "distinct (map fst d)"
    and "distinct drawn" and "set drawn \<subseteq> fst ` set d"
    and "and_then (sort_shuffle_cut e st drawn sz)
           (\<lambda>fold_set. and_then (del_all fold_set d) (\<lambda>d'. Inr (fold_set, d'))) = Inr (fld, d')"
  shows "distinct fld \<and> set fld \<subseteq> fst ` set d \<and> fst ` set d' = fst ` set d - set fld
         \<and> distinct (map fst d')"
proof -
  from assms(5) have cut: "sort_shuffle_cut e st drawn sz = Inr fld" and del: "del_all fld d = Inr d'"
    by (auto simp: and_then_def split: sum.splits)
  from sort_shuffle_cut_sub [OF assms(1) cut] assms(3,4)
  have "distinct fld" and "set fld \<subseteq> fst ` set d" by auto
  with del_all_keys [OF del assms(2)] show ?thesis by simp
qed

lemma generate_training_fold_result:
  assumes "permuting (shuffle e)" and "distinct (map fst d)" and "distinct (map fst fd)"
    and "generate_training_fold e p fd d fs c n = Inr (fld, d')"
  shows "distinct fld \<and> set fld \<subseteq> fst ` set d \<and> fst ` set d' = fst ` set d - set fld
         \<and> distinct (map fst d')"
proof (cases "sampling p = ''stratified''")
  case True
  let ?scan = "stratified_scan (shuffle e) fd d (of_int fs) (labels_by_count fd) ([], 1, [])"
  obtain sz where
    run: "and_then (sort_shuffle_cut e (fst ?scan) (stratified_draw fd (num_val sz) (snd (snd ?scan))) sz)
            (\<lambda>fold_set. and_then (del_all fold_set d) (\<lambda>d'. Inr (fold_set, d'))) = Inr (fld, d')"
    using assms(4) True by (auto simp: generate_training_fold_def Let_def split: if_splits)
  have "good_entries d (snd (snd ?scan))"
    by (rule stratified_scan_good [OF assms(1,2) good_entries_empty])
  from stratified_draw_good [OF assms(2) this, of fd "num_val sz"]
  have "distinct (stratified_draw fd (num_val sz) (snd (snd ?scan)))"
    and "set (stratified_draw fd (num_val sz) (snd (snd ?scan))) \<subseteq> fst ` set d"
    by (auto simp: image_iff) force
  from cut_and_delete [OF assms(1,2) this run] show ?thesis .
next
  case False
  let ?scan = "even_scan (shuffle e) d \<lceil>(of_int fs :: rat) / of_nat (length fd)\<rceil>
                 (labels_by_count fd) ([], None, [])"
  show ?thesis
  proof (cases ?scan)
    case None
    with assms(4) False have "fld = []" and "d' = d"
      by (auto simp: generate_training_fold_def split: if_splits)
    with assms(2) show ?thesis by simp
  next
    case (Some res)
    obtain st drawn where res: "res = (st, drawn)" by (cases res)
    from assms(4) False Some res have
      run: "and_then (sort_shuffle_cut e st drawn (PyInt fs))
              (\<lambda>fold_set. and_then (del_all fold_set d) (\<lambda>d'. Inr (fold_set, d'))) = Inr (fld, d')"
      by (simp add: generate_training_fold_def)
    have "distinct drawn \<and> set drawn \<subseteq> fst ` set d"
    proof (rule even_scan_good [OF assms(1,2)])
      show "distinct (labels_by_count fd)" using assms(3) by (rule distinct_labels_by_count)
      show "distinct ([] :: 'a list)" by simp
      show "\<forall>i \<in> set []. \<exists>l. (i, l) \<in> set d \<and> l \<notin> set (labels_by_count fd)" by simp
      show "?scan = Some (st, drawn)" using Some res by simp
    qed
    then have "distinct drawn" and "set drawn \<subseteq> fst ` set d" by auto
    from cut_and_delete [OF assms(1,2) this run] show ?thesis .
  qed
qed

lemma fold_loop_count:
  "fold_loop e p fd fs n k (d, ts, c) = Inr (d', ts', c') \<Longrightarrow>
     \<exists>new. ts' = ts @ new \<and> c' = c + int (length new) \<and> length new \<le> k \<and> [] \<notin> set new"
proof (induction k arbitrary: d ts c)
  case 0
  then show ?case by simp
next
  case (Suc k)
  show ?case
  proof (cases "generate_training_fold e p fd d fs c n")
    case (Inl err)
    with Suc.prems show ?thesis by simp
  next
    case (Inr res)
    show ?thesis
    proof (cases "fst res = []")
      case True
      with Suc.prems Inr show ?thesis by simp
    next
      case False
      with Suc.prems Inr have
        "fold_loop e p fd fs n k (snd res, ts @ [fst res], c + 1) = Inr (d', ts', c')" by simp
      from Suc.IH [OF this] obtain new where
        "ts' = (ts @ [fst res]) @ new" "c' = (c + 1) + int (length new)" "length new \<le> k"
        "[] \<notin> set new" by blast
      with False show ?thesis
        by (intro exI [of _ "fst res # new"]) auto
    qed
  qed
qed

lemma fold_loop_result:
  assumes "permuting (shuffle e)" and "distinct (map fst fd)"
  shows "distinct (map fst d) \<Longrightarrow>
         fold_loop e p fd fs n k (d, ts, c) = Inr (d', ts', c') \<Longrightarrow>
         \<exists>new. ts' = ts @ new \<and> distinct (concat new) \<and> set (concat new) \<subseteq> fst ` set d \<and>
               fst ` set d' = fst ` set d - set (concat new) \<and> distinct (map fst d')"
proof (induction k arbitrary: d ts c)
  case 0
  then show ?case by simp
next
  case (Suc k)
  show ?case
  proof (cases "generate_training_fold e p fd d fs c n")
    case (Inl err)
    with Suc.prems show ?thesis by simp
  next
    case (Inr res)
    obtain fld d1 where res: "res = (fld, d1)" by (cases res)
    from generate_training_fold_result [OF assms(1) Suc.prems(1) assms(2) Inr [unfolded res]]
    have f: "distinct fld" "set fld \<subseteq> fst ` set d" "fst ` set d1 = fst ` set d - set fld"
      "distinct (map fst d1)" by auto
    show ?thesis
    proof (cases "fld = []")
      case True
      with Suc.prems Inr res f show ?thesis by auto
    next
      case False
      with Suc.prems Inr res have
        "fold_loop e p fd fs n k (d1, ts @ [fld], c + 1) = Inr (d', ts', c')" by simp
      from Suc.IH [OF f(4) this] obtain new where
        new: "ts' = (ts @ [fld]) @ new" "distinct (concat new)" "set (concat new) \<subseteq> fst ` set d1"
        "fst ` set d' = fst ` set d1 - set (concat new)" "distinct (map fst d')" by blast
      show ?thesis
      proof (intro exI [of _ "fld # new"] conjI)
        show "ts' = ts @ fld # new" using new(1) by simp
        show "distinct (concat (fld # new))" using f new by auto
        show "set (concat (fld # new)) \<subseteq> fst ` set d" using f new by auto
        show "fst ` set d' = fst ` set d - set (concat (fld # new))" using f new by auto
        show "distinct (map fst d')" by (rule new(5))
      qed
    qed
  qed
qed

lemma generate_dataset_result:
  assumes "permuting (shuffle e)" and "distinct (map fst fd)" and "distinct (map fst d)"
    and "generate_dataset e p fd d gs = Inr (ts, d')"
  shows "distinct (concat ts) \<and> set (concat ts) \<subseteq> fst ` set d \<and>
         fst ` set d' = fst ` set d - set (concat ts) \<and> distinct (map fst d')"
proof -
  from assms(4) obtain n fs c where
    "fold_loop e p fd fs n (nat n) (d, [], 0) = Inr (d', ts, c)"
    by (auto simp: generate_dataset_def Let_def and_then_def split: sum.splits if_splits)
  from fold_loop_result [OF assms(1,2,3) this] show ?thesis by auto
qed

section \<open>Lemmas about the test set and the orchestrator\<close>

lemma stratified_draw_zero:
  "stratified_draw fd 0 lids = []"
  by (simp add: stratified_draw_def slice_to_def)

lemma sort_shuffle_cut_nil:
  assumes "permuting (shuffle e)" and "sort_shuffle_cut e st [] sz = Inr r"
  shows "r = []"
  using sort_shuffle_cut_sub(1) [OF assms] by simp

lemma stratified_draw_sub:
  assumes "distinct (map fst d)" and "good_entries d lids"
  shows "distinct (stratified_draw fd sz lids)" and "set (stratified_draw fd sz lids) \<subseteq> fst ` set d"
proof -
  from stratified_draw_good [OF assms, of fd sz]
  have a: "distinct (stratified_draw fd sz lids)"
    and b: "\<forall>i \<in> set (stratified_draw fd sz lids). \<exists>entry \<in> set lids. (i, fst entry) \<in> set d"
    by auto
  show "distinct (stratified_draw fd sz lids)" by (rule a)
  show "set (stratified_draw fd sz lids) \<subseteq> fst ` set d"
  proof
    fix i assume "i \<in> set (stratified_draw fd sz lids)"
    with b obtain entry where "entry \<in> set lids" and "(i, fst entry) \<in> set d" by blast
    then show "i \<in> fst ` set d" by force
  qed
qed

lemma make_test_set_unfold:
  assumes "distributional_info e p (self_test_games p) = Inr (d, fd)" and "d \<noteq> []"
  shows "make_test_set e p =
     (let cached = (if games_test_games_equal p then Some (d, fd) else None)
      in if sampling p = ''stratified'' then
           (let scan = stratified_scan (shuffle e) fd d (of_int (test_size p))
                         (labels_by_count fd) ([], 1, []);
                factor = fst (snd scan)
            in if factor < 1 \<and> 1 - factor < 1 / 2 then Inl ValueError
               else (let sz = (if factor < 1 then PyFloat (factor * of_int (test_size p))
                               else PyInt (test_size p))
                     in and_then
                          (sort_shuffle_cut e (fst scan)
                             (stratified_draw fd (num_val sz) (snd (snd scan))) sz)
                          (\<lambda>test_set. Inr (Some test_set, sz, cached))))
         else
           (case even_scan (shuffle e) d
                   \<lceil>(of_int (test_size p) :: rat) / of_nat (length fd)\<rceil>
                   (labels_by_count fd) ([], None, []) of
              None \<Rightarrow> Inl ValueError
            | Some res \<Rightarrow>
                and_then (sort_shuffle_cut e (fst res) (snd res) (PyInt (test_size p)))
                  (\<lambda>test_set. Inr (Some test_set, PyInt (test_size p), cached))))"
  using assms by (simp add: make_test_set_def and_then_def Let_def)

lemma make_test_set_result:
  assumes "permuting (shuffle e)" and "make_test_set e p = Inr (res, sz, cached)"
  shows "\<exists>d fd ts. distributional_info e p (self_test_games p) = Inr (d, fd) \<and>
           res = Some ts \<and> distinct ts \<and> set ts \<subseteq> fst ` set d \<and>
           (num_val sz = 0 \<and> test_size p \<noteq> 0 \<longrightarrow> ts = []) \<and>
           cached = (if games_test_games_equal p then Some (d, fd) else None)"
proof -
  from assms(2) obtain info where info: "distributional_info e p (self_test_games p) = Inr info"
    by (auto simp: make_test_set_def and_then_def split: sum.splits)
  obtain d fd where dfd: "info = (d, fd)" by (cases info)
  note di = distributional_info_result [OF info [unfolded dfd]]
  note unf = make_test_set_unfold [OF info [unfolded dfd] di(3)]
  let ?cached = "if games_test_games_equal p then Some (d, fd) else None"
  show ?thesis
  proof (cases "sampling p = ''stratified''")
    case True
    let ?scan = "stratified_scan (shuffle e) fd d (of_int (test_size p)) (labels_by_count fd) ([], 1, [])"
    let ?sz = "if fst (snd ?scan) < 1 then PyFloat (fst (snd ?scan) * of_int (test_size p))
               else PyInt (test_size p)"
    from assms(2) have
      "and_then (sort_shuffle_cut e (fst ?scan) (stratified_draw fd (num_val ?sz) (snd (snd ?scan))) ?sz)
         (\<lambda>test_set. Inr (Some test_set, ?sz, ?cached)) = Inr (res, sz, cached)"
      unfolding unf using True by (simp add: Let_def split: if_splits)
    then obtain ts where
      cut: "sort_shuffle_cut e (fst ?scan) (stratified_draw fd (num_val ?sz) (snd (snd ?scan))) ?sz = Inr ts"
      and res: "res = Some ts" and sz: "sz = ?sz" and cached: "cached = ?cached"
      by (auto simp: and_then_def split: sum.splits)
    have "good_entries d (snd (snd ?scan))"
      by (rule stratified_scan_good [OF assms(1) di(1) good_entries_empty])
    note dr = stratified_draw_sub [OF di(1) this, of fd "num_val ?sz"]
    from sort_shuffle_cut_sub [OF assms(1) cut] dr
    have ts: "distinct ts" "set ts \<subseteq> fst ` set d" by auto
    have zero: "ts = []" if "num_val sz = 0"
    proof -
      from that sz have "num_val ?sz = 0" by simp
      with cut have "sort_shuffle_cut e (fst ?scan) [] ?sz = Inr ts"
        by (simp add: stratified_draw_zero)
      from sort_shuffle_cut_nil [OF assms(1) this] show ?thesis .
    qed
    from info dfd res ts zero cached show ?thesis by auto
  next
    case False
    let ?scan = "even_scan (shuffle e) d \<lceil>(of_int (test_size p) :: rat) / of_nat (length fd)\<rceil>
                   (labels_by_count fd) ([], None, [])"
    from assms(2) have
      run: "(case ?scan of None \<Rightarrow> Inl ValueError
            | Some r \<Rightarrow> and_then (sort_shuffle_cut e (fst r) (snd r) (PyInt (test_size p)))
                  (\<lambda>test_set. Inr (Some test_set, PyInt (test_size p), ?cached)))
            = Inr (res, sz, cached)"
      unfolding unf using False by (simp add: Let_def)
    then obtain r where scan: "?scan = Some r" by (cases ?scan) auto
    obtain st drawn where r: "r = (st, drawn)" by (cases r)
    from run scan r obtain ts where
      cut: "sort_shuffle_cut e st drawn (PyInt (test_size p)) = Inr ts"
      and res: "res = Some ts" and sz: "sz = PyInt (test_size p)" and cached: "cached = ?cached"
      by (auto simp: and_then_def split: sum.splits)
    have "distinct drawn \<and> set drawn \<subseteq> fst ` set d"
    proof (rule even_scan_good [OF assms(1) di(1)])
      show "distinct (labels_by_count fd)" using di(2) by (rule distinct_labels_by_count)
      show "distinct ([] :: 'a list)" by simp
      show "\<forall>i \<in> set []. \<exists>l. (i, l) \<in> set d \<and> l \<notin> set (labels_by_count fd)" by simp
      show "?scan = Some (st, drawn)" using scan r by simp
    qed
    with sort_shuffle_cut_sub [OF assms(1) cut]
    have ts: "distinct ts" "set ts \<subseteq> fst ` set d" by auto
    from info dfd res ts sz cached show ?thesis by auto
  qed
qed

section \<open>Disjointness of the partitions\<close>

lemma and_then_Inr:
  "and_then m f = Inr r \<Longrightarrow> \<exists>x. m = Inr x \<and> f x = Inr r"
  by (cases m) (simp_all add: and_then_def)

lemma disjoint_games_ids:
  assumes "distinct (map id_string docs)"
    and "i \<in> id_string ` {doc \<in> set docs. game doc \<in> G1}"
    and "i \<in> id_string ` {doc \<in> set docs. game doc \<in> G2}"
  shows "G1 \<inter> G2 \<noteq> {}"
proof -
  from assms(2) obtain a where a: "a \<in> set docs" "game a \<in> G1" "id_string a = i" by auto
  from assms(3) obtain b where b: "b \<in> set docs" "game b \<in> G2" "id_string b = i" by auto
  from assms(1) have "inj_on id_string (set docs)" by (simp add: distinct_map)
  with a b have "a = b" by (auto dest: inj_onD)
  with a b show ?thesis by auto
qed

lemma partition_sets:
  "T \<inter> K1 = {} \<Longrightarrow> M \<subseteq> K1 \<Longrightarrow> K2 = K1 - M \<Longrightarrow> G \<subseteq> K2 \<Longrightarrow> K3 = K2 - G \<Longrightarrow>
     T \<inter> M = {} \<and> T \<inter> G = {} \<and> M \<inter> G = {} \<and> (T \<union> M \<union> G) \<inter> K3 = {}"
  by blast

lemma construct_layered_dataset_disjoint:
  assumes perm: "permuting (shuffle e)" and ids: "distinct (map id_string (db e))"
    and run: "construct_layered_dataset e p = Inr r"
  shows "distinct (partition_ids r) \<and> set (partition_ids r) \<inter> fst ` set (id_strings_labels r) = {}"
proof -
  from and_then_Inr [OF run [unfolded construct_layered_dataset_def]] obtain made where
    made: "(if test_size p \<noteq> 0 then make_test_set e p
            else Inr (Some [], PyInt (test_size p), None)) = Inr made"
    and run1: "and_then (case snd (snd made) of
                 None \<Rightarrow> distributional_info e p (games p)
               | Some info \<Rightarrow> if fst info \<noteq> [] \<and> snd info \<noteq> [] then Inr info
                              else distributional_info e p (games p))
       (\<lambda>info.
     and_then (if num_val (fst (snd made)) \<noteq> 0
                    \<and> list_ex (\<lambda>g. g \<in> set (games p)) (self_test_games p)
               then (case fst made of
                       None \<Rightarrow> Inl TypeError
                     | Some ts \<Rightarrow> Inr (del_present ts (fst info)))
               else Inr (fst info))
       (\<lambda>d1.
     and_then (if folds p \<noteq> 0
               then and_then (generate_dataset e p (snd info) d1 False)
                      (\<lambda>res. Inr (Some (fst res), snd res))
               else Inr (None, d1))
       (\<lambda>main.
     and_then (if grid_search_folds p \<noteq> 0
               then and_then (generate_dataset e p (snd info) (snd main) True)
                      (\<lambda>res. Inr (Some (fst res), snd res))
               else Inr (None, snd main))
       (\<lambda>grid.
          case fst main of
            None \<Rightarrow> Inl TypeError
          | Some ts \<Rightarrow>
              Inr \<lparr> test_set = fst made, training_set = ts, grid_search_set = fst grid,
                    num_datasets = length ts, id_strings_labels = snd grid,
                    labels_fdist = snd info \<rparr>)))) = Inr r"
    by blast
  from and_then_Inr [OF run1] obtain info where
    info0: "(case snd (snd made) of
                 None \<Rightarrow> distributional_info e p (games p)
               | Some info \<Rightarrow> if fst info \<noteq> [] \<and> snd info \<noteq> [] then Inr info
                              else distributional_info e p (games p)) = Inr info"
    and run2: "and_then (if num_val (fst (snd made)) \<noteq> 0
                    \<and> list_ex (\<lambda>g. g \<in> set (games p)) (self_test_games p)
               then (case fst made of
                       None \<Rightarrow> Inl TypeError
                     | Some ts \<Rightarrow> Inr (del_present ts (fst info)))
               else Inr (fst info))
       (\<lambda>d1.
     and_then (if folds p \<noteq> 0
               then and_then (generate_dataset e p (snd info) d1 False)
                      (\<lambda>res. Inr (Some (fst res), snd res))
               else Inr (None, d1))
       (\<lambda>main.
     and_then (if grid_search_folds p \<noteq> 0
               then and_then (generate_dataset e p (snd info) (snd main) True)
                      (\<lambda>res. Inr (Some (fst res), snd res))
               else Inr (None, snd main))
       (\<lambda>grid.
          case fst main of
            None \<Rightarrow> Inl TypeError
          | Some ts \<Rightarrow>
              Inr \<lparr> test_set = fst made, training_set = ts, grid_search_set = fst grid,
                    num_datasets = length ts, id_strings_labels = snd grid,
                    labels_fdist = snd info \<rparr>))) = Inr r"
    by blast
  from and_then_Inr [OF run2] obtain d1 where
    d10: "(if num_val (fst (snd made)) \<noteq> 0
                    \<and> list_ex (\<lambda>g. g \<in> set (games p)) (self_test_games p)
               then (case fst made of
                       None \<Rightarrow> Inl TypeError
                     | Some ts \<Rightarrow> Inr (del_present ts (fst info)))
               else Inr (fst info)) = Inr d1"
    and run3: "and_then (if folds p \<noteq> 0
               then and_then (generate_dataset e p (snd info) d1 False)
                      (\<lambda>res. Inr (Some (fst res), snd res))
               else Inr (None, d1))
       (\<lambda>main.
     and_then (if grid_search_folds p \<noteq> 0
               then and_then (generate_dataset e p (snd info) (snd main) True)
                      (\<lambda>res. Inr (Some (fst res), snd res))
               else Inr (None, snd main))
       (\<lambda>grid.
          case fst main of
            None \<Rightarrow> Inl TypeError
          | Some ts \<Rightarrow>
              Inr \<lparr> test_set = fst made, training_set = ts, grid_search_set = fst grid,
                    num_datasets = length ts, id_strings_labels = snd grid,
                    labels_fdist = snd info \<rparr>)) = Inr r"
    by blast
  from and_then_Inr [OF run3] obtain main where
    main0: "(if folds p \<noteq> 0
               then and_then (generate_dataset e p (snd info) d1 False)
                      (\<lambda>res. Inr (Some (fst res), snd res))
               else Inr (None, d1)) = Inr main"
    and run4: "and_then (if grid_search_folds p \<noteq> 0
               then and_then (generate_dataset e p (snd info) (snd main) True)
                      (\<lambda>res. Inr (Some (fst res), snd res))
               else Inr (None, snd main))
       (\<lambda>grid.
          case fst main of
            None \<Rightarrow> Inl TypeError
          | Some ts \<Rightarrow>
              Inr \<lparr> test_set = fst made, training_set = ts, grid_search_set = fst grid,
                    num_datasets = length ts, id_strings_labels = snd grid,
                    labels_fdist = snd info \<rparr>) = Inr r"
    by blast
  from and_then_Inr [OF run4] obtain grid where
    grid0: "(if grid_search_folds p \<noteq> 0
               then and_then (generate_dataset e p (snd info) (snd main) True)
                      (\<lambda>res. Inr (Some (fst res), snd res))
               else Inr (None, snd main)) = Inr grid"
    and fin: "(case fst main of
            None \<Rightarrow> Inl TypeError
          | Some ts \<Rightarrow>
              Inr \<lparr> test_set = fst made, training_set = ts, grid_search_set = fst grid,
                    num_datasets = length ts, id_strings_labels = snd grid,
                    labels_fdist = snd info \<rparr>) = Inr r"
    by blast
  define tso where "tso = fst made"
  define sz where "sz = fst (snd made)"
  define cached where "cached = snd (snd made)"
  define d where "d = fst info"
  define fd where "fd = snd info"
  have made_eq: "made = (tso, sz, cached)" by (simp add: tso_def sz_def cached_def)
  have info_eq: "info = (d, fd)" by (simp add: d_def fd_def)
  note info = info0 [folded cached_def]
  note d1 = d10 [folded tso_def sz_def d_def]
  note main = main0 [folded fd_def]
  note grid = grid0 [folded fd_def]
  from fin obtain tsm where tsm: "fst main = Some tsm"
    and r: "r = \<lparr> test_set = tso, training_set = tsm, grid_search_set = fst grid,
                    num_datasets = length tsm, id_strings_labels = snd grid,
                    labels_fdist = fd \<rparr>"
    by (cases "fst main") (auto simp: tso_def fd_def)
  \<comment> \<open>the test set\<close>
  have test: "\<exists>ts. tso = Some ts \<and> distinct ts \<and>
                (ts = [] \<or> num_val sz \<noteq> 0 \<and>
                   set ts \<subseteq> id_string ` {doc \<in> set (db e). game doc \<in> set (self_test_games p)}) \<and>
                (cached = None \<or> games_test_games_equal p \<and>
                   (\<exists>d0 fd0. cached = Some (d0, fd0) \<and>
                      distributional_info e p (self_test_games p) = Inr (d0, fd0)))"
  proof (cases "test_size p = 0")
    case True
    with made made_eq show ?thesis by auto
  next
    case False
    with made made_eq have "make_test_set e p = Inr (tso, sz, cached)" by simp
    from make_test_set_result [OF perm this] obtain d0 fd0 ts where
      m: "distributional_info e p (self_test_games p) = Inr (d0, fd0)"
        "tso = Some ts" "distinct ts" "set ts \<subseteq> fst ` set d0"
        "num_val sz = 0 \<and> test_size p \<noteq> 0 \<longrightarrow> ts = []"
        "cached = (if games_test_games_equal p then Some (d0, fd0) else None)"
      by blast
    from distributional_info_result(4) [OF m(1)] m(4)
    have "set ts \<subseteq> id_string ` {doc \<in> set (db e). game doc \<in> set (self_test_games p)}" by blast
    with m False show ?thesis by (cases "games_test_games_equal p") auto
  qed
  then obtain ts where ts: "tso = Some ts" "distinct ts"
    "ts = [] \<or> num_val sz \<noteq> 0 \<and>
       set ts \<subseteq> id_string ` {doc \<in> set (db e). game doc \<in> set (self_test_games p)}"
    "cached = None \<or> games_test_games_equal p \<and>
       (\<exists>d0 fd0. cached = Some (d0, fd0) \<and>
          distributional_info e p (self_test_games p) = Inr (d0, fd0))"
    by blast
  \<comment> \<open>the dictionary and the distribution of the training games\<close>
  have "\<exists>gs. set gs = set (games p) \<and> distributional_info e p gs = Inr (d, fd)"
  proof (cases cached)
    case None
    with info info_eq show ?thesis by auto
  next
    case (Some c)
    with ts(4) obtain d0 fd0 where c: "c = (d0, fd0)" "games_test_games_equal p"
      "distributional_info e p (self_test_games p) = Inr (d0, fd0)" by auto
    show ?thesis
    proof (cases "d0 \<noteq> [] \<and> fd0 \<noteq> []")
      case True
      with info info_eq Some c have "d = d0" "fd = fd0" by auto
      with c show ?thesis by (auto simp: games_test_games_equal_def)
    next
      case False
      with info info_eq Some c have "distributional_info e p (games p) = Inr (d, fd)" by auto
      then show ?thesis by auto
    qed
  qed
  then obtain gs where gs: "set gs = set (games p)" "distributional_info e p gs = Inr (d, fd)"
    by blast
  note di = distributional_info_result [OF gs(2)]
  have dkeys: "fst ` set d \<subseteq> id_string ` {doc \<in> set (db e). game doc \<in> set (games p)}"
    using di(4) gs(1) by simp
  \<comment> \<open>the dictionary after the test set has been taken out\<close>
  have d1_facts: "distinct (map fst d1) \<and> set ts \<inter> fst ` set d1 = {}"
  proof (cases "num_val sz \<noteq> 0 \<and> list_ex (\<lambda>g. g \<in> set (games p)) (self_test_games p)")
    case True
    with d1 ts(1) have "d1 = del_present ts d" by simp
    then show ?thesis using di(1) by (auto simp: del_present_keys distinct_del_present)
  next
    case False
    with d1 have eq: "d1 = d" by (simp split: if_splits)
    have "set ts \<inter> fst ` set d = {}"
    proof (rule ccontr)
      assume "set ts \<inter> fst ` set d \<noteq> {}"
      then obtain i where i: "i \<in> set ts" "i \<in> fst ` set d" by auto
      then have "ts \<noteq> []" by auto
      with ts(3) have nz: "num_val sz \<noteq> 0"
        and sub: "set ts \<subseteq> id_string ` {doc \<in> set (db e). game doc \<in> set (self_test_games p)}"
        by auto
      from i sub have a: "i \<in> id_string ` {doc \<in> set (db e). game doc \<in> set (self_test_games p)}"
        by auto
      from i dkeys have b: "i \<in> id_string ` {doc \<in> set (db e). game doc \<in> set (games p)}" by auto
      from disjoint_games_ids [OF ids a b]
      have "set (self_test_games p) \<inter> set (games p) \<noteq> {}" .
      then have "list_ex (\<lambda>g. g \<in> set (games p)) (self_test_games p)"
        by (auto simp: list_ex_iff)
      with nz False show False by simp
    qed
    with eq di(1) show ?thesis by simp
  qed
  \<comment> \<open>the training set\<close>
  from main tsm have fm: "folds p \<noteq> 0" by (auto split: if_splits)
  with main tsm obtain d2 where
    gd: "generate_dataset e p fd d1 False = Inr (tsm, d2)" and d2: "snd main = d2"
    by (auto simp: and_then_def split: sum.splits)
  define ml where "ml = concat tsm"
  from generate_dataset_result [OF perm di(2) _ gd] d1_facts
  have m: "distinct ml" "set ml \<subseteq> fst ` set d1"
    "fst ` set d2 = fst ` set d1 - set ml" "distinct (map fst d2)"
    unfolding ml_def by auto
  \<comment> \<open>the grid search set\<close>
  define gl where "gl = (case fst grid of None \<Rightarrow> [] | Some gs \<Rightarrow> concat gs)"
  have g: "distinct gl \<and> set gl \<subseteq> fst ` set d2 \<and> fst ` set (snd grid) = fst ` set d2 - set gl"
  proof (cases "grid_search_folds p = 0")
    case True
    with grid d2 show ?thesis by (auto simp: gl_def)
  next
    case False
    with grid d2 obtain tsg d3 where
      gg: "generate_dataset e p fd d2 True = Inr (tsg, d3)" and "grid = (Some tsg, d3)"
      by (auto simp: and_then_def split: sum.splits)
    with generate_dataset_result [OF perm di(2) m(4) gg] show ?thesis by (simp add: gl_def)
  qed
  have pid: "partition_ids r = ts @ ml @ gl"
    by (simp add: partition_ids_def r ts(1) ml_def gl_def)
  have pool: "id_strings_labels r = snd grid" by (simp add: r)
  from d1_facts have t1: "set ts \<inter> fst ` set d1 = {}" by (rule conjunct2)
  from g have g1: "distinct gl" and g2: "set gl \<subseteq> fst ` set d2"
    and g3: "fst ` set (snd grid) = fst ` set d2 - set gl" by (rule conjunct1, rule conjunct2 [THEN conjunct1], rule conjunct2 [THEN conjunct2])
  from partition_sets [OF t1 m(2) m(3) g2 g3]
  have x1: "set ts \<inter> set ml = {}" and x2: "set ts \<inter> set gl = {}"
    and x3: "set ml \<inter> set gl = {}"
    and x4: "(set ts \<union> set ml \<union> set gl) \<inter> fst ` set (snd grid) = {}"
    by (rule conjunct1, rule conjunct2 [THEN conjunct1],
        rule conjunct2 [THEN conjunct2, THEN conjunct1],
        rule conjunct2 [THEN conjunct2, THEN conjunct2])
  have "distinct (ts @ ml @ gl)"
    using ts(2) m(1) g1 x1 x2 x3 by (simp add: Int_Un_distrib)
  moreover have "set (ts @ ml @ gl) \<inter> fst ` set (snd grid) = {}"
    using x4 by (simp add: Un_assoc)
  ultimately show ?thesis unfolding pid pool by simp
qed

section \<open>The claims about the orchestrator\<close>

lemma permuting_reversing: "permuting reversing"
  by (simp add: permuting_def reversing_def)

text \<open>
  C4.  When the shuffle rearranges and no two documents of the collection have the same
  identifier, a constructor call that returns has produced a test set and folds of the
  training set and of the grid search set in which no identifier occurs twice, within a
  partition or across partitions, and none of these identifiers is left in
  \<^verbatim>\<open>self.id_strings_labels\<close>.
\<close>

theorem partitions_pairwise_disjoint:
  assumes "permuting (shuffle e)" and "distinct (map id_string (db e))"
    and "ExperimentalData e p = Inr r"
  shows "distinct (partition_ids r) \<and>
         set (partition_ids r) \<inter> fst ` set (id_strings_labels r) = {}"
proof -
  from assms(3) have "construct_layered_dataset e p = Inr r"
    by (auto simp: ExperimentalData_def and_then_def split: sum.splits)
  from construct_layered_dataset_disjoint [OF assms(1,2) this] show ?thesis .
qed

theorem partitions_pairwise_disjoint_witness:
  "permuting (shuffle (sample_env reversing)) \<and>
   distinct (map id_string (db (sample_env reversing))) \<and>
   ExperimentalData (sample_env reversing) sample_params =
     Inr \<lparr> test_set = Some [8, 4], training_set = [[7, 3], [6, 2]],
           grid_search_set = Some [[5, 1]], num_datasets = 2, id_strings_labels = [],
           labels_fdist = [(''A'', 4), (''B'', 4)] \<rparr> \<and>
   partition_ids \<lparr> test_set = Some [8, 4], training_set = [[7, 3], [6, 2]],
           grid_search_set = Some [[5, 1]], num_datasets = 2,
           id_strings_labels = ([] :: (nat \<times> string) list),
           labels_fdist = [(''A'', 4), (''B'', 4 :: nat)] \<rparr> = [8, 4, 7, 3, 6, 2, 5, 1] \<and>
   distinct (partition_ids \<lparr> test_set = Some [8, 4], training_set = [[7, 3], [6, 2]],
           grid_search_set = Some [[5, 1]], num_datasets = 2,
           id_strings_labels = ([] :: (nat \<times> string) list),
           labels_fdist = [(''A'', 4), (''B'', 4 :: nat)] \<rparr>)"
proof -
  have h1: "permuting (shuffle (sample_env reversing))"
    by (simp add: sample_env_def permuting_reversing)
  have h2: "distinct (map id_string (db (sample_env reversing)))"
    by (simp add: sample_env_def sample_db_def sample_doc_def)
  have h3: "ExperimentalData (sample_env reversing) sample_params =
     Inr \<lparr> test_set = Some [8, 4], training_set = [[7, 3], [6, 2]],
           grid_search_set = Some [[5, 1]], num_datasets = 2, id_strings_labels = [],
           labels_fdist = [(''A'', 4), (''B'', 4)] \<rparr>"
    by code_simp
  have h4: "partition_ids \<lparr> test_set = Some [8, 4], training_set = [[7, 3], [6, 2]],
           grid_search_set = Some [[5, 1]], num_datasets = 2,
           id_strings_labels = ([] :: (nat \<times> string) list),
           labels_fdist = [(''A'', 4), (''B'', 4 :: nat)] \<rparr> = [8, 4, 7, 3, 6, 2, 5, 1]"
    by (simp add: partition_ids_def)
  from partitions_pairwise_disjoint [OF h1 h2 h3] h1 h2 h3 h4 show ?thesis by simp
qed

section \<open>The claims about the constructor's validation\<close>

text \<open>
  C9, on the code.  When the test games differ from the training games and
  \<^verbatim>\<open>test_size\<close> is 0, the validation of \<^verbatim>\<open>__init__\<close> raises nothing, provided the other
  arguments are in order: the test in that branch is \<^verbatim>\<open>test_size < 0\<close>, which 0 passes.
\<close>

theorem init_validate_accepts_zero_test_size:
  assumes "games p \<noteq> []"
    and "set (games p) \<subseteq> set (APPID_DICT e)" and "set (self_test_games p) \<subseteq> set (APPID_DICT e)"
    and "1 \<le> batch_size p"
    and "0 \<le> folds p" and "0 \<le> fold_size p"
    and "0 \<le> grid_search_folds p" and "0 \<le> grid_search_fold_size p"
    and "\<not> games_test_games_equal p" and "test_size p = 0"
    and "\<not> truthy_list (bin_ranges p)" and "\<not> truthy_list (test_bin_ranges p)"
    and "sampling p = ''even'' \<or> sampling p = ''stratified''"
  shows "init_validate e p = Inr ()"
proof -
  have "\<not> list_ex (\<lambda>g. g \<notin> set (APPID_DICT e)) (games p @ self_test_games p)"
    using assms(2,3) by (auto simp: list_ex_iff)
  then show ?thesis using assms by (auto simp: init_validate_def)
qed

theorem init_validate_accepts_zero_test_size_witness:
  "games (sample_params\<lparr>test_games := Some [''g2''], test_size := 0\<rparr>) \<noteq> [] \<and>
   \<not> games_test_games_equal (sample_params\<lparr>test_games := Some [''g2''], test_size := 0\<rparr>) \<and>
   test_size (sample_params\<lparr>test_games := Some [''g2''], test_size := 0\<rparr>) = 0 \<and>
   init_validate (sample_env reversing)
     (sample_params\<lparr>test_games := Some [''g2''], test_size := 0\<rparr>) = Inr () \<and>
   ExperimentalData (sample_env reversing)
     (sample_params\<lparr>test_games := Some [''g2''], test_size := 0\<rparr>) =
     Inr \<lparr> test_set = Some [], training_set = [[8, 4], [7, 3]],
           grid_search_set = Some [[6, 2]], num_datasets = 2,
           id_strings_labels = [(1, ''A''), (5, ''B'')],
           labels_fdist = [(''A'', 4), (''B'', 4)] \<rparr>"
proof -
  let ?p = "sample_params\<lparr>test_games := Some [''g2''], test_size := 0\<rparr>"
  let ?e = "sample_env reversing :: (nat, string) env"
  have stg: "self_test_games ?p = [''g2'']" by (simp add: self_test_games_def)
  have h1: "games ?p \<noteq> []" by (simp add: sample_params_def)
  have h2: "set (games ?p) \<subseteq> set (APPID_DICT ?e)"
    by (simp add: sample_params_def sample_env_def)
  have h3: "set (self_test_games ?p) \<subseteq> set (APPID_DICT ?e)"
    by (simp add: stg sample_env_def)
  have h4: "1 \<le> batch_size ?p" by (simp add: sample_params_def)
  have h5: "0 \<le> folds ?p" "0 \<le> fold_size ?p" "0 \<le> grid_search_folds ?p"
    "0 \<le> grid_search_fold_size ?p" by (simp_all add: sample_params_def)
  have h6: "\<not> games_test_games_equal ?p"
    unfolding games_test_games_equal_def stg by (simp add: sample_params_def)
  have h7: "test_size ?p = 0" by simp
  have h8: "\<not> truthy_list (bin_ranges ?p)" "\<not> truthy_list (test_bin_ranges ?p)"
    by (simp_all add: sample_params_def truthy_list_def)
  have h9: "sampling ?p = ''even'' \<or> sampling ?p = ''stratified''"
    by (simp add: sample_params_def)
  have run: "ExperimentalData ?e ?p =
     Inr \<lparr> test_set = Some [], training_set = [[8, 4], [7, 3]],
           grid_search_set = Some [[6, 2]], num_datasets = 2,
           id_strings_labels = [(1, ''A''), (5, ''B'')],
           labels_fdist = [(''A'', 4), (''B'', 4)] \<rparr>"
    by code_simp
  from init_validate_accepts_zero_test_size [OF h1 h2 h3 h4 h5 h6 h7 h8 h9] h1 h6 h7 run
  show ?thesis by blast
qed

text \<open>
  C10.  With \<^verbatim>\<open>folds = 0\<close> the constructor never returns an object: the validation
  treats 0 like any other non-negative number of folds, \<^verbatim>\<open>_construct_layered_dataset\<close>
  then leaves \<^verbatim>\<open>self.training_set\<close> at \<^verbatim>\<open>None\<close>, and whenever everything before its last
  statement has gone through, that statement raises \<^verbatim>\<open>TypeError\<close>.
\<close>

theorem zero_folds_never_constructs:
  assumes "folds p = 0"
  shows "(\<exists>err. ExperimentalData e p = Inl err) \<and>
         init_validate e p = init_validate e (p\<lparr>folds := 1\<rparr>)"
proof
  have "construct_layered_dataset e p \<noteq> Inr r" for r
  proof
    assume run: "construct_layered_dataset e p = Inr r"
    from and_then_Inr [OF run [unfolded construct_layered_dataset_def]] obtain made where
      run1: "and_then (case snd (snd made) of
                 None \<Rightarrow> distributional_info e p (games p)
               | Some info \<Rightarrow> if fst info \<noteq> [] \<and> snd info \<noteq> [] then Inr info
                              else distributional_info e p (games p))
       (\<lambda>info.
     and_then (if num_val (fst (snd made)) \<noteq> 0
                    \<and> list_ex (\<lambda>g. g \<in> set (games p)) (self_test_games p)
               then (case fst made of
                       None \<Rightarrow> Inl TypeError
                     | Some ts \<Rightarrow> Inr (del_present ts (fst info)))
               else Inr (fst info))
       (\<lambda>d1.
     and_then (if folds p \<noteq> 0
               then and_then (generate_dataset e p (snd info) d1 False)
                      (\<lambda>res. Inr (Some (fst res), snd res))
               else Inr (None, d1))
       (\<lambda>main.
     and_then (if grid_search_folds p \<noteq> 0
               then and_then (generate_dataset e p (snd info) (snd main) True)
                      (\<lambda>res. Inr (Some (fst res), snd res))
               else Inr (None, snd main))
       (\<lambda>grid.
          case fst main of
            None \<Rightarrow> Inl TypeError
          | Some ts \<Rightarrow>
              Inr \<lparr> test_set = fst made, training_set = ts, grid_search_set = fst grid,
                    num_datasets = length ts, id_strings_labels = snd grid,
                    labels_fdist = snd info \<rparr>)))) = Inr r"
      by blast
    from and_then_Inr [OF run1] obtain info where
      run2: "and_then (if num_val (fst (snd made)) \<noteq> 0
                    \<and> list_ex (\<lambda>g. g \<in> set (games p)) (self_test_games p)
               then (case fst made of
                       None \<Rightarrow> Inl TypeError
                     | Some ts \<Rightarrow> Inr (del_present ts (fst info)))
               else Inr (fst info))
       (\<lambda>d1.
     and_then (if folds p \<noteq> 0
               then and_then (generate_dataset e p (snd info) d1 False)
                      (\<lambda>res. Inr (Some (fst res), snd res))
               else Inr (None, d1))
       (\<lambda>main.
     and_then (if grid_search_folds p \<noteq> 0
               then and_then (generate_dataset e p (snd info) (snd main) True)
                      (\<lambda>res. Inr (Some (fst res), snd res))
               else Inr (None, snd main))
       (\<lambda>grid.
          case fst main of
            None \<Rightarrow> Inl TypeError
          | Some ts \<Rightarrow>
              Inr \<lparr> test_set = fst made, training_set = ts, grid_search_set = fst grid,
                    num_datasets = length ts, id_strings_labels = snd grid,
                    labels_fdist = snd info \<rparr>))) = Inr r"
      by blast
    from and_then_Inr [OF run2] obtain d1 where
      run3: "and_then (if folds p \<noteq> 0
               then and_then (generate_dataset e p (snd info) d1 False)
                      (\<lambda>res. Inr (Some (fst res), snd res))
               else Inr (None, d1))
       (\<lambda>main.
     and_then (if grid_search_folds p \<noteq> 0
               then and_then (generate_dataset e p (snd info) (snd main) True)
                      (\<lambda>res. Inr (Some (fst res), snd res))
               else Inr (None, snd main))
       (\<lambda>grid.
          case fst main of
            None \<Rightarrow> Inl TypeError
          | Some ts \<Rightarrow>
              Inr \<lparr> test_set = fst made, training_set = ts, grid_search_set = fst grid,
                    num_datasets = length ts, id_strings_labels = snd grid,
                    labels_fdist = snd info \<rparr>)) = Inr r"
      by blast
    from and_then_Inr [OF run3] assms obtain main where
      main: "main = (None, d1)"
      and run4: "and_then (if grid_search_folds p \<noteq> 0
               then and_then (generate_dataset e p (snd info) (snd main) True)
                      (\<lambda>res. Inr (Some (fst res), snd res))
               else Inr (None, snd main))
       (\<lambda>grid.
          case fst main of
            None \<Rightarrow> Inl TypeError
          | Some ts \<Rightarrow>
              Inr \<lparr> test_set = fst made, training_set = ts, grid_search_set = fst grid,
                    num_datasets = length ts, id_strings_labels = snd grid,
                    labels_fdist = snd info \<rparr>) = Inr r"
      by auto
    from and_then_Inr [OF run4] obtain grid where
      "(case fst main of
            None \<Rightarrow> Inl TypeError
          | Some ts \<Rightarrow>
              Inr \<lparr> test_set = fst made, training_set = ts, grid_search_set = fst grid,
                    num_datasets = length ts, id_strings_labels = snd grid,
                    labels_fdist = snd info \<rparr>) = Inr r"
      by blast
    with main show False by simp
  qed
  then have "ExperimentalData e p \<noteq> Inr r" for r
    by (auto simp: ExperimentalData_def and_then_def split: sum.splits)
  then show "\<exists>err. ExperimentalData e p = Inl err"
    by (cases "ExperimentalData e p") auto
next
  have a: "self_test_games (p\<lparr>folds := 1\<rparr>) = self_test_games p"
    by (simp add: self_test_games_def split: option.splits)
  have b: "games_test_games_equal (p\<lparr>folds := 1\<rparr>) = games_test_games_equal p"
    by (simp add: games_test_games_equal_def a)
  show "init_validate e p = init_validate e (p\<lparr>folds := 1\<rparr>)"
    unfolding init_validate_def a b using assms by simp
qed

theorem zero_folds_never_constructs_witness:
  "folds (sample_params\<lparr>folds := 0\<rparr>) = 0 \<and>
   init_validate (sample_env reversing) (sample_params\<lparr>folds := 0\<rparr>) = Inr () \<and>
   ExperimentalData (sample_env reversing) (sample_params\<lparr>folds := 0\<rparr>) = Inl TypeError"
proof -
  have h: "folds (sample_params\<lparr>folds := 0\<rparr>) = 0" by simp
  have v: "init_validate (sample_env reversing :: (nat, string) env) (sample_params\<lparr>folds := 0\<rparr>) = Inr ()"
    by code_simp
  have r: "ExperimentalData (sample_env reversing) (sample_params\<lparr>folds := 0\<rparr>) = Inl TypeError"
    by code_simp
  from zero_folds_never_constructs [OF h, of "sample_env reversing :: (nat, string) env"] h v r
  show ?thesis by blast
qed

section \<open>The claims about the shrink factor\<close>

lemma sample_distributional_info:
  "games p = [''g1''] \<Longrightarrow> prediction_label p = ''hours'' \<Longrightarrow> \<not> lognormal p \<Longrightarrow>
   1 \<le> batch_size p \<Longrightarrow> bin_ranges p = None \<Longrightarrow>
   distributional_info (sample_env sh) p [''g1''] =
     Inr ([(1, ''A''), (2, ''A''), (3, ''A''), (4, ''A''), (5, ''B''), (6, ''B''), (7, ''B''), (8, ''B'')],
          [(''A'', 4), (''B'', 4)])"
  by (simp add: distributional_info_def sample_env_def sample_db_def sample_doc_def
      truthy_list_def and_then_def dict_of_def FreqDist_def)

lemma sample_labels_by_count: "labels_by_count [(''A'', 4), (''B'', 4 :: nat)] = [''A'', ''B'']"
  by (simp add: labels_by_count_def fd_count_def)

lemma sample_freq:
  "freq [(''A'', 4), (''B'', 4 :: nat)] ''A'' = 1 / 2"
  "freq [(''A'', 4), (''B'', 4 :: nat)] ''B'' = 1 / 2"
  by (simp_all add: freq_def fd_N_def fd_count_def)

lemma sample_stratified_scan:
  assumes "permuting sh" and "4 \<le> n" and "s = 2 * of_int n"
    and "label_ids d ''A'' = xs" and "label_ids d ''B'' = ys"
    and "length xs = 4" and "length ys = 4"
  shows "stratified_scan sh [(''A'', 4), (''B'', 4)] d s [''A'', ''B''] ([], 1, [])
         = ([4, 4], (if n = 4 then 1 else 4 / of_int n), [(''A'', sh [] xs), (''B'', sh [4] ys)])"
  using assms
  by (simp add: Let_def prng_shuffle_def sample_freq slice_to_def permuting_length min_def
      divide_simps)

text \<open>
  C1, on the code.  The collection has four documents for each of two labels, so a
  stratified test set of 10 asks for 5 per label and the factor is 0.8: the shrink of 20%
  is under the ceiling, and \<^verbatim>\<open>_make_test_set\<close> raises \<^verbatim>\<open>ValueError\<close>.  A test set of 20
  asks for 10 per label and the factor is 0.4: the shrink of 60% is over the ceiling, and
  \<^verbatim>\<open>_make_test_set\<close> returns the eight identifiers, with \<^verbatim>\<open>self.test_size\<close> set to 8.0.
  This holds for every shuffle that rearranges.
\<close>

theorem make_test_set_shrink_check_inverted:
  assumes "permuting sh"
  shows "make_test_set (sample_env sh) (sample_params\<lparr>test_size := 10\<rparr>) = Inl ValueError \<and>
         (\<exists>ts cached. make_test_set (sample_env sh) (sample_params\<lparr>test_size := 20\<rparr>)
                          = Inr (Some ts, PyFloat 8, cached) \<and> length ts = 8)"
proof
  define d :: "(nat \<times> string) list" where
    "d = [(1, ''A''), (2, ''A''), (3, ''A''), (4, ''A''), (5, ''B''), (6, ''B''), (7, ''B''), (8, ''B'')]"
  define fd :: "string freqdist" where "fd = [(''A'', 4), (''B'', 4)]"
  define e where "e = sample_env sh"
  have sh: "shuffle e = sh" by (simp add: e_def sample_env_def)
  have stg: "self_test_games (sample_params\<lparr>test_size := t\<rparr>) = [''g1'']" for t
    by (simp add: self_test_games_def sample_params_def)
  have di: "distributional_info e (sample_params\<lparr>test_size := t\<rparr>)
              (self_test_games (sample_params\<lparr>test_size := t\<rparr>)) = Inr (d, fd)" for t
    unfolding stg d_def fd_def e_def
    by (rule sample_distributional_info) (simp_all add: sample_params_def)
  have ne: "d \<noteq> []" by (simp add: d_def)
  have strat: "sampling (sample_params\<lparr>test_size := t\<rparr>) = ''stratified''" for t
    by (simp add: sample_params_def)
  have lbc: "labels_by_count fd = [''A'', ''B'']"
    unfolding fd_def by (rule sample_labels_by_count)
  define xs where "xs = sh [] (label_ids d ''A'')"
  define ys where "ys = sh [4] (label_ids d ''B'')"
  have la: "length (label_ids d ''A'') = 4" and lb: "length (label_ids d ''B'') = 4"
    by (simp_all add: label_ids_def d_def)
  have lxs: "length xs = 4" and lys: "length ys = 4"
    using assms la lb by (simp_all add: xs_def ys_def permuting_length)
  have "stratified_scan sh fd d 10 [''A'', ''B''] ([], 1, [])
         = ([4, 4], (if (5 :: int) = 4 then 1 else 4 / of_int 5), [(''A'', xs), (''B'', ys)])"
    unfolding fd_def xs_def ys_def
    by (rule sample_stratified_scan [OF assms _ _ refl refl la lb]) simp_all
  then have scan10: "stratified_scan sh fd d 10 [''A'', ''B''] ([], 1, [])
         = ([4, 4], 4 / 5, [(''A'', xs), (''B'', ys)])"
    by (simp del: stratified_scan.simps)
  have "stratified_scan sh fd d 20 [''A'', ''B''] ([], 1, [])
         = ([4, 4], (if (10 :: int) = 4 then 1 else 4 / of_int 10), [(''A'', xs), (''B'', ys)])"
    unfolding fd_def xs_def ys_def
    by (rule sample_stratified_scan [OF assms _ _ refl refl la lb]) simp_all
  then have scan20: "stratified_scan sh fd d 20 [''A'', ''B''] ([], 1, [])
         = ([4, 4], 2 / 5, [(''A'', xs), (''B'', ys)])"
    by (simp del: stratified_scan.simps)
  have "make_test_set e (sample_params\<lparr>test_size := 10\<rparr>) = Inl ValueError"
    unfolding make_test_set_unfold [OF di ne]
    by (simp add: strat lbc sh scan10 Let_def del: stratified_scan.simps)
  then show "make_test_set (sample_env sh) (sample_params\<lparr>test_size := 10\<rparr>) = Inl ValueError"
    by (simp add: e_def)
  have draw: "stratified_draw fd 8 [(''A'', xs), (''B'', ys)] = xs @ ys"
    by (simp add: stratified_draw_def fd_def sample_freq slice_to_def lxs lys)
  have len: "length (sh [4, 4] (sort (xs @ ys))) = 8"
    using assms by (simp add: permuting_length lxs lys)
  have cut: "sort_shuffle_cut e [4, 4] (xs @ ys) (PyFloat 8) = Inr (sh [4, 4] (sort (xs @ ys)))"
    using len by (simp add: sort_shuffle_cut_def Let_def prng_shuffle_def sh)
  have "make_test_set e (sample_params\<lparr>test_size := 20\<rparr>)
          = Inr (Some (sh [4, 4] (sort (xs @ ys))), PyFloat 8,
                 if games_test_games_equal (sample_params\<lparr>test_size := 20\<rparr>)
                 then Some (d, fd) else None)"
    unfolding make_test_set_unfold [OF di ne]
    by (simp add: strat lbc sh scan20 Let_def draw cut and_then_def del: stratified_scan.simps)
  with len show "\<exists>ts cached. make_test_set (sample_env sh) (sample_params\<lparr>test_size := 20\<rparr>)
                          = Inr (Some ts, PyFloat 8, cached) \<and> length ts = 8"
    unfolding e_def by blast
qed

theorem make_test_set_shrink_check_inverted_witness:
  "permuting (reversing :: nat shuffler) \<and>
   make_test_set (sample_env reversing) (sample_params\<lparr>test_size := 10\<rparr>) = Inl ValueError \<and>
   make_test_set (sample_env reversing) (sample_params\<lparr>test_size := 20\<rparr>)
     = Inr (Some [8, 7, 6, 5, 4, 3, 2, 1], PyFloat 8,
            Some ([(1, ''A''), (2, ''A''), (3, ''A''), (4, ''A''),
                   (5, ''B''), (6, ''B''), (7, ''B''), (8, ''B'')], [(''A'', 4), (''B'', 4)]))"
proof -
  have r: "make_test_set (sample_env reversing) (sample_params\<lparr>test_size := 20\<rparr>)
     = Inr (Some [8, 7, 6, 5, 4, 3, 2, 1], PyFloat 8,
            Some ([(1, ''A''), (2, ''A''), (3, ''A''), (4, ''A''),
                   (5, ''B''), (6, ''B''), (7, ''B''), (8, ''B'')], [(''A'', 4), (''B'', 4)]))"
    by code_simp
  from make_test_set_shrink_check_inverted [OF permuting_reversing] permuting_reversing r
  show ?thesis by blast
qed

lemma cut_and_delete_succeeds:
  assumes "permuting (shuffle e)" and "distinct (map fst d)"
    and "distinct drawn" and "set drawn \<subseteq> fst ` set d"
    and "sort_shuffle_cut e st drawn sz = Inr fld"
  shows "\<exists>d'. and_then (sort_shuffle_cut e st drawn sz)
                 (\<lambda>fold_set. and_then (del_all fold_set d) (\<lambda>d'. Inr (fold_set, d'))) = Inr (fld, d')"
proof -
  from sort_shuffle_cut_sub [OF assms(1,5)] assms(3,4)
  have "distinct fld" and "set fld \<subseteq> fst ` set d" by auto
  from del_all_succeeds [OF this] obtain d' where "del_all fld d = Inr d'" by blast
  with assms(5) show ?thesis by (simp add: and_then_def)
qed

text \<open>
  C2, on the code.  With four identifiers left for each of two labels of frequency one
  half, a stratified fold of 10 out of 2 asks for 5 per label and the factor is 0.8.  The
  shrink of 20% exceeds 10%, and \<^verbatim>\<open>_generate_training_fold\<close> returns a fold of all eight
  identifiers whatever the number of folds already collected: it neither raises when a
  fold has been collected nor returns an empty fold when none has.  With ten identifiers
  left of a single label, a fold of 11 out of 2 has the factor 10/11; the shrink is under
  10%, and the function raises \<^verbatim>\<open>TypeError\<close>, again whatever the number of folds
  collected.  This holds for every shuffle that rearranges.
\<close>

theorem generate_training_fold_shrink_check:
  assumes "permuting sh"
  shows "(\<exists>fld d'. generate_training_fold (sample_env sh) sample_params [(''A'', 4), (''B'', 4)]
            [(1, ''A''), (2, ''A''), (3, ''A''), (4, ''A''), (5, ''B''), (6, ''B''), (7, ''B''), (8, ''B'')]
            10 c 2 = Inr (fld, d') \<and> length fld = 8) \<and>
         generate_training_fold (sample_env sh) sample_params [(''A'', 10)]
            [(1, ''A''), (2, ''A''), (3, ''A''), (4, ''A''), (5, ''A''),
             (6, ''A''), (7, ''A''), (8, ''A''), (9, ''A''), (10, ''A'')]
            11 c 2 = Inl TypeError"
proof
  define d :: "(nat \<times> string) list" where
    "d = [(1, ''A''), (2, ''A''), (3, ''A''), (4, ''A''), (5, ''B''), (6, ''B''), (7, ''B''), (8, ''B'')]"
  define fd :: "string freqdist" where "fd = [(''A'', 4), (''B'', 4)]"
  define e where "e = sample_env sh"
  have sh: "shuffle e = sh" by (simp add: e_def sample_env_def)
  have perm: "permuting (shuffle e)" using assms by (simp add: sh)
  have dd: "distinct (map fst d)" by (simp add: d_def)
  have strat: "sampling sample_params = ''stratified''" by (simp add: sample_params_def)
  have lbc: "labels_by_count fd = [''A'', ''B'']"
    unfolding fd_def by (rule sample_labels_by_count)
  define xs where "xs = sh [] (label_ids d ''A'')"
  define ys where "ys = sh [4] (label_ids d ''B'')"
  have la: "length (label_ids d ''A'') = 4" and lb: "length (label_ids d ''B'') = 4"
    by (simp_all add: label_ids_def d_def)
  have lxs: "length xs = 4" and lys: "length ys = 4"
    using assms la lb by (simp_all add: xs_def ys_def permuting_length)
  have "stratified_scan sh fd d 10 [''A'', ''B''] ([], 1, [])
         = ([4, 4], (if (5 :: int) = 4 then 1 else 4 / of_int 5), [(''A'', xs), (''B'', ys)])"
    unfolding fd_def xs_def ys_def
    by (rule sample_stratified_scan [OF assms _ _ refl refl la lb]) simp_all
  then have scan10: "stratified_scan sh fd d 10 [''A'', ''B''] ([], 1, [])
         = ([4, 4], 4 / 5, [(''A'', xs), (''B'', ys)])"
    by (simp del: stratified_scan.simps)
  have draw: "stratified_draw fd 8 [(''A'', xs), (''B'', ys)] = xs @ ys"
    by (simp add: stratified_draw_def fd_def sample_freq slice_to_def lxs lys)
  have len: "length (sh [4, 4] (sort (xs @ ys))) = 8"
    using assms by (simp add: permuting_length lxs lys)
  have cut: "sort_shuffle_cut e [4, 4] (xs @ ys) (PyFloat 8) = Inr (sh [4, 4] (sort (xs @ ys)))"
    using len by (simp add: sort_shuffle_cut_def Let_def prng_shuffle_def sh)
  have good: "good_entries d [(''A'', xs), (''B'', ys)]"
    using stratified_scan_good [OF assms dd good_entries_empty, of fd 10 "[''A'', ''B'']" "[]" 1]
    by (simp add: scan10 del: stratified_scan.simps)
  from stratified_draw_sub [OF dd good, of fd 8]
  have "distinct (xs @ ys)" and "set (xs @ ys) \<subseteq> fst ` set d" by (simp_all only: draw)
  from cut_and_delete_succeeds [OF perm dd this cut] obtain d' where
    "and_then (sort_shuffle_cut e [4, 4] (xs @ ys) (PyFloat 8))
       (\<lambda>fold_set. and_then (del_all fold_set d) (\<lambda>d'. Inr (fold_set, d')))
     = Inr (sh [4, 4] (sort (xs @ ys)), d')" by blast
  then have "generate_training_fold e sample_params fd d 10 c 2
               = Inr (sh [4, 4] (sort (xs @ ys)), d')"
    by (simp add: generate_training_fold_def strat lbc sh scan10 Let_def draw
        del: stratified_scan.simps)
  with len show "\<exists>fld d'. generate_training_fold (sample_env sh) sample_params [(''A'', 4), (''B'', 4)]
            [(1, ''A''), (2, ''A''), (3, ''A''), (4, ''A''), (5, ''B''), (6, ''B''), (7, ''B''), (8, ''B'')]
            10 c 2 = Inr (fld, d') \<and> length fld = 8"
    unfolding e_def d_def fd_def by blast
next
  define d :: "(nat \<times> string) list" where
    "d = [(1, ''A''), (2, ''A''), (3, ''A''), (4, ''A''), (5, ''A''),
          (6, ''A''), (7, ''A''), (8, ''A''), (9, ''A''), (10, ''A'')]"
  define fd :: "string freqdist" where "fd = [(''A'', 10)]"
  have strat: "sampling sample_params = ''stratified''" by (simp add: sample_params_def)
  have lbc: "labels_by_count fd = [''A'']" by (simp add: labels_by_count_def fd_def)
  have fr: "freq fd ''A'' = 1" by (simp add: freq_def fd_N_def fd_count_def fd_def)
  have la: "length (label_ids d ''A'') = 10" by (simp add: label_ids_def d_def)
  have scan: "fst (snd (stratified_scan sh fd d 11 [''A''] ([], 1, []))) = 10 / 11"
    using assms by (simp add: Let_def prng_shuffle_def fr slice_to_def permuting_length la)
  have "generate_training_fold (sample_env sh) sample_params fd d 11 c 2 = Inl TypeError"
    by (simp add: generate_training_fold_def strat lbc sample_env_def scan Let_def
        del: stratified_scan.simps)
  then show "generate_training_fold (sample_env sh) sample_params [(''A'', 10)]
            [(1, ''A''), (2, ''A''), (3, ''A''), (4, ''A''), (5, ''A''),
             (6, ''A''), (7, ''A''), (8, ''A''), (9, ''A''), (10, ''A'')]
            11 c 2 = Inl TypeError"
    unfolding d_def fd_def .
qed

theorem generate_training_fold_shrink_check_witness:
  "permuting (reversing :: nat shuffler) \<and>
   generate_training_fold (sample_env reversing) sample_params [(''A'', 4), (''B'', 4)]
      [(1, ''A''), (2, ''A''), (3, ''A''), (4, ''A''), (5, ''B''), (6, ''B''), (7, ''B''), (8, ''B'')]
      10 1 2 = Inr ([8, 7, 6, 5, 4, 3, 2, 1], []) \<and>
   generate_training_fold (sample_env reversing) sample_params [(''A'', 4), (''B'', 4)]
      [(1, ''A''), (2, ''A''), (3, ''A''), (4, ''A''), (5, ''B''), (6, ''B''), (7, ''B''), (8, ''B'')]
      10 0 2 = Inr ([8, 7, 6, 5, 4, 3, 2, 1], []) \<and>
   generate_training_fold (sample_env reversing) sample_params [(''A'', 10)]
      [(1, ''A''), (2, ''A''), (3, ''A''), (4, ''A''), (5, ''A''),
       (6, ''A''), (7, ''A''), (8, ''A''), (9, ''A''), (10, ''A'')]
      11 1 2 = Inl TypeError"
proof -
  have a: "generate_training_fold (sample_env reversing) sample_params [(''A'', 4), (''B'', 4)]
      [(1, ''A''), (2, ''A''), (3, ''A''), (4, ''A''), (5, ''B''), (6, ''B''), (7, ''B''), (8, ''B'')]
      10 1 2 = Inr ([8, 7, 6, 5, 4, 3, 2, 1], [])"
    by code_simp
  have b: "generate_training_fold (sample_env reversing) sample_params [(''A'', 4), (''B'', 4)]
      [(1, ''A''), (2, ''A''), (3, ''A''), (4, ''A''), (5, ''B''), (6, ''B''), (7, ''B''), (8, ''B'')]
      10 0 2 = Inr ([8, 7, 6, 5, 4, 3, 2, 1], [])"
    by code_simp
  from generate_training_fold_shrink_check [OF permuting_reversing, of 1] permuting_reversing a b
  show ?thesis by blast
qed

section \<open>The threshold of three quarters\<close>

text \<open>
  What \<^verbatim>\<open>_generate_dataset\<close> does once its loop has ended without an exception:
  \<^verbatim>\<open>folds_collected\<close> is the number of folds in the list, none of them is empty, and the
  list is returned exactly when that number is at least \<open>0.75 * F\<close>.  An exception of a
  fold draw leaves the function before the comparison.
\<close>

lemma generate_dataset_after_draws:
  "(\<forall>d' ts c.
      fold_loop e p fd (if gs then grid_search_fold_size p else fold_size p)
        (if gs then grid_search_folds p else folds p)
        (nat (if gs then grid_search_folds p else folds p)) (d, [], 0) = Inr (d', ts, c)
      \<longrightarrow> c = int (length ts) \<and> [] \<notin> set ts \<and>
          generate_dataset e p fd d gs =
            (if (3 / 4) * (of_int (if gs then grid_search_folds p else folds p) :: rat)
                  \<le> of_nat (length ts)
             then Inr (ts, d') else Inl ValueError)) \<and>
   (\<forall>err.
      fold_loop e p fd (if gs then grid_search_fold_size p else fold_size p)
        (if gs then grid_search_folds p else folds p)
        (nat (if gs then grid_search_folds p else folds p)) (d, [], 0) = Inl err
      \<longrightarrow> generate_dataset e p fd d gs = Inl err)"
proof (intro conjI allI impI)
  fix d' ts c
  assume run: "fold_loop e p fd (if gs then grid_search_fold_size p else fold_size p)
        (if gs then grid_search_folds p else folds p)
        (nat (if gs then grid_search_folds p else folds p)) (d, [], 0) = Inr (d', ts, c)"
  from fold_loop_count [OF run] show c: "c = int (length ts)" and "[] \<notin> set ts" by auto
  show "generate_dataset e p fd d gs =
            (if (3 / 4) * (of_int (if gs then grid_search_folds p else folds p) :: rat)
                  \<le> of_nat (length ts)
             then Inr (ts, d') else Inl ValueError)"
    using run c by (simp add: generate_dataset_def Let_def and_then_def)
next
  fix err
  assume "fold_loop e p fd (if gs then grid_search_fold_size p else fold_size p)
        (if gs then grid_search_folds p else folds p)
        (nat (if gs then grid_search_folds p else folds p)) (d, [], 0) = Inl err"
  then show "generate_dataset e p fd d gs = Inl err"
    by (simp add: generate_dataset_def Let_def and_then_def)
qed

lemma del_all_subset: "del_all ks d = Inr d' \<Longrightarrow> set d' \<subseteq> set d"
proof (induction ks arbitrary: d)
  case Nil
  then show ?case by simp
next
  case (Cons k ks)
  from Cons.prems have "del_all ks (dict_del k d) = Inr d'" by (simp split: if_splits)
  from Cons.IH [OF this] show ?case by (auto simp: dict_del_def)
qed

lemma fold_loop_step:
  "generate_training_fold e p fd d fs c n = Inr (fld, d') \<Longrightarrow> fld \<noteq> [] \<Longrightarrow>
     fold_loop e p fd fs n (Suc k) (d, ts, c) = fold_loop e p fd fs n k (d', ts @ [fld], c + 1)"
  by simp

lemma fold_loop_raise:
  "generate_training_fold e p fd d fs c n = Inl err \<Longrightarrow>
     fold_loop e p fd fs n (Suc k) (d, ts, c) = Inl err"
  by simp

lemma single_label_ids:
  assumes "\<forall>kv \<in> set d. snd kv = l"
  shows "length (label_ids d l) = length d"
proof -
  from assms have "filter (\<lambda>kv. snd kv = l) d = d" by (simp add: filter_id_conv)
  then show ?thesis by (simp add: label_ids_def)
qed

lemma single_label_fold:
  assumes perm: "permuting (shuffle e)" and strat: "sampling p = ''stratified''"
    and dd: "distinct (map fst d)" and lab: "\<forall>kv \<in> set d. snd kv = l"
    and n: "0 < n" and k: "0 < k" "nat k \<le> length d"
  shows "\<exists>fld d'. generate_training_fold e p [(l, n)] d k c F = Inr (fld, d') \<and>
           length fld = nat k \<and> distinct (map fst d') \<and> (\<forall>kv \<in> set d'. snd kv = l) \<and>
           length d' = length d - nat k"
proof -
  define fd where "fd = [(l, n)]"
  define xs where "xs = shuffle e [] (label_ids d l)"
  have lbc: "labels_by_count fd = [l]" by (simp add: labels_by_count_def fd_def)
  have fr: "freq fd l = 1" using n by (simp add: freq_def fd_N_def fd_count_def fd_def)
  have lxs: "length xs = length d"
    using perm by (simp add: xs_def permuting_length single_label_ids [OF lab])
  have sl: "length (slice_to k xs) = nat k" using k lxs by (simp add: slice_to_def)
  have scan: "stratified_scan (shuffle e) fd d (of_int k) [l] ([], 1, [])
                = ([length (label_ids d l)], 1, [(l, xs)])"
    using k sl by (simp add: Let_def prng_shuffle_def fr xs_def)
  have draw: "stratified_draw fd (of_int k) [(l, xs)] = slice_to k xs"
    by (simp add: stratified_draw_def fr)
  define arr where "arr = shuffle e [length (label_ids d l)] (sort (slice_to k xs))"
  have larr: "length arr = nat k" using perm sl by (simp add: arr_def permuting_length)
  have cut: "sort_shuffle_cut e [length (label_ids d l)] (slice_to k xs) (PyInt k) = Inr arr"
    using larr k by (simp add: sort_shuffle_cut_def Let_def prng_shuffle_def arr_def)
  have good: "good_entries d [(l, xs)]"
    using stratified_scan_good [OF perm dd good_entries_empty, of fd "of_int k" "[l]" "[]" 1]
    by (simp add: scan del: stratified_scan.simps)
  from stratified_draw_sub [OF dd good, of fd "of_int k"]
  have dr: "distinct (slice_to k xs)" "set (slice_to k xs) \<subseteq> fst ` set d"
    by (simp_all only: draw)
  from cut_and_delete_succeeds [OF perm dd dr cut] obtain d' where
    run: "and_then (sort_shuffle_cut e [length (label_ids d l)] (slice_to k xs) (PyInt k))
       (\<lambda>fold_set. and_then (del_all fold_set d) (\<lambda>d'. Inr (fold_set, d'))) = Inr (arr, d')"
    by blast
  from cut_and_delete [OF perm dd dr run]
  have c: "distinct arr" "set arr \<subseteq> fst ` set d" "fst ` set d' = fst ` set d - set arr"
    "distinct (map fst d')" by auto
  from run cut have del: "del_all arr d = Inr d'"
    by (auto simp: and_then_def split: sum.splits)
  from del_all_subset [OF del] lab have lab': "\<forall>kv \<in> set d'. snd kv = l" by auto
  have "length d' = card (fst ` set d')" using distinct_card [OF c(4)] by simp
  also have "\<dots> = card (fst ` set d) - card (set arr)"
    unfolding c(3) using c(2) by (simp add: card_Diff_subset)
  also have "\<dots> = length d - nat k"
    using distinct_card [OF dd] distinct_card [OF c(1)] larr by simp
  finally have len': "length d' = length d - nat k" .
  have "generate_training_fold e p fd d k c F = Inr (arr, d')"
    using run by (simp add: generate_training_fold_def strat lbc scan Let_def draw
        del: stratified_scan.simps)
  with larr c(4) lab' len' show ?thesis unfolding fd_def by blast
qed

lemma single_label_fold_short:
  assumes perm: "permuting (shuffle e)" and strat: "sampling p = ''stratified''"
    and lab: "\<forall>kv \<in> set d. snd kv = l" and n: "0 < n"
    and len: "length d = 10" and F: "F \<noteq> 1"
  shows "generate_training_fold e p [(l, n)] d 11 c F = Inl TypeError"
proof -
  define fd where "fd = [(l, n)]"
  have lbc: "labels_by_count fd = [l]" by (simp add: labels_by_count_def fd_def)
  have fr: "freq fd l = 1" using n by (simp add: freq_def fd_N_def fd_count_def fd_def)
  have la: "length (label_ids d l) = 10" using single_label_ids [OF lab] len by simp
  have scan: "fst (snd (stratified_scan (shuffle e) fd d 11 [l] ([], 1, []))) = 10 / 11"
    using perm by (simp add: Let_def prng_shuffle_def fr slice_to_def permuting_length la)
  have "generate_training_fold e p fd d 11 c F = Inl TypeError"
    using F by (simp add: generate_training_fold_def strat lbc scan Let_def
        del: stratified_scan.simps)
  then show ?thesis unfolding fd_def .
qed

lemma single_label_dataset_raises:
  assumes perm: "permuting (shuffle e)" and strat: "sampling p = ''stratified''"
    and dd: "distinct (map fst d)" and len: "length d = 43" and lab: "\<forall>kv \<in> set d. snd kv = l"
  shows "\<exists>d3 ts. fold_loop e p [(l, 43)] 11 4 3 (d, [], 0) = Inr (d3, ts, 3) \<and>
           length ts = 3 \<and> [] \<notin> set ts \<and>
           generate_training_fold e p [(l, 43)] d3 11 3 4 = Inl TypeError \<and>
           fold_loop e p [(l, 43)] 11 4 4 (d, [], 0) = Inl TypeError"
proof -
  from single_label_fold [OF perm strat dd lab, of 43 11 0 4] len obtain f1 d1 where
    s1: "generate_training_fold e p [(l, 43)] d 11 0 4 = Inr (f1, d1)" "length f1 = 11"
      "distinct (map fst d1)" "\<forall>kv \<in> set d1. snd kv = l" "length d1 = 32"
    by auto
  from single_label_fold [OF perm strat s1(3,4), of 43 11 1 4] s1(5) obtain f2 d2 where
    s2: "generate_training_fold e p [(l, 43)] d1 11 1 4 = Inr (f2, d2)" "length f2 = 11"
      "distinct (map fst d2)" "\<forall>kv \<in> set d2. snd kv = l" "length d2 = 21"
    by auto
  from single_label_fold [OF perm strat s2(3,4), of 43 11 2 4] s2(5) obtain f3 d3 where
    s3: "generate_training_fold e p [(l, 43)] d2 11 2 4 = Inr (f3, d3)" "length f3 = 11"
      "distinct (map fst d3)" "\<forall>kv \<in> set d3. snd kv = l" "length d3 = 10"
    by auto
  have s4: "generate_training_fold e p [(l, 43)] d3 11 3 4 = Inl TypeError"
    by (rule single_label_fold_short [OF perm strat s3(4) _ s3(5)]) simp_all
  have ne: "f1 \<noteq> []" "f2 \<noteq> []" "f3 \<noteq> []" using s1(2) s2(2) s3(2) by auto
  have three: "fold_loop e p [(l, 43)] 11 4 (Suc (Suc (Suc 0))) (d, [], 0) = Inr (d3, [f1, f2, f3], 3)"
    by (simp add: fold_loop_step [OF s1(1) ne(1)] fold_loop_step [OF s2(1) [simplified] ne(2)]
        fold_loop_step [OF s3(1) [simplified] ne(3)] del: fold_loop.simps(2))
  have four: "fold_loop e p [(l, 43)] 11 4 (Suc (Suc (Suc (Suc 0)))) (d, [], 0) = Inl TypeError"
    by (simp add: fold_loop_step [OF s1(1) ne(1)] fold_loop_step [OF s2(1) [simplified] ne(2)]
        fold_loop_step [OF s3(1) [simplified] ne(3)] fold_loop_raise [OF s4 [simplified]]
        del: fold_loop.simps(2))
  have n3: "(3::nat) = Suc (Suc (Suc 0))" and n4: "(4::nat) = Suc (Suc (Suc (Suc 0)))" by simp_all
  from three four s4 ne show ?thesis unfolding n3 n4 by auto
qed

lemma single_label_info:
  "distributional_info (single_label_env sh) four_folds_params [''g1'']
     = Inr (single_label_pool, [(''A'', 43)])"
  by code_simp

lemma single_label_validate: "init_validate (single_label_env sh) four_folds_params = Inr ()"
  by code_simp

text \<open>
  C3, on the code.  The collection has 43 documents of a single label, and four stratified
  folds of 11 are asked for.  Three draws return a fold of 11 and leave 32, 21 and 10
  identifiers.  Three folds are 75% of four.  The fourth draw finds 10 identifiers for a
  quota of 11, a shrink of one eleventh, which is under 10%; with more than one fold
  needed it evaluates \<^verbatim>\<open>len(n_folds_collected)\<close> on the integer 3 and raises
  \<^verbatim>\<open>TypeError\<close>.  The exception leaves \<^verbatim>\<open>_generate_dataset\<close> before the comparison with
  \<open>0.75 * folds\<close>, and the constructor: no dataset is returned although three of the four
  folds were collected.  This holds for every shuffle that rearranges.
\<close>

theorem generate_dataset_raises_at_three_of_four:
  assumes "permuting sh"
  shows "(\<exists>d3 ts. fold_loop (single_label_env sh) four_folds_params [(''A'', 43)] 11 4 3
                     (single_label_pool, [], 0) = Inr (d3, ts, 3) \<and>
            length ts = 3 \<and> [] \<notin> set ts \<and>
            generate_training_fold (single_label_env sh) four_folds_params [(''A'', 43)] d3 11 3 4
              = Inl TypeError) \<and>
         (3 / 4) * (of_int (folds four_folds_params) :: rat) \<le> 3 \<and>
         generate_dataset (single_label_env sh) four_folds_params [(''A'', 43)] single_label_pool False
           = Inl TypeError \<and>
         ExperimentalData (single_label_env sh) four_folds_params = Inl TypeError"
proof -
  let ?e = "single_label_env sh" and ?p = "four_folds_params"
  have perm: "permuting (shuffle ?e)"
    using assms by (simp add: single_label_env_def sample_env_def)
  have strat: "sampling ?p = ''stratified''"
    by (simp add: four_folds_params_def sample_params_def)
  have dd: "distinct (map fst single_label_pool)"
    by (simp add: single_label_pool_def comp_def)
  have len: "length single_label_pool = 43" by (simp add: single_label_pool_def)
  have lab: "\<forall>kv \<in> set single_label_pool. snd kv = ''A''"
    by (auto simp: single_label_pool_def)
  from single_label_dataset_raises [OF perm strat dd len lab] obtain d3 ts where
    run: "fold_loop ?e ?p [(''A'', 43)] 11 4 3 (single_label_pool, [], 0) = Inr (d3, ts, 3)"
      "length ts = 3" "[] \<notin> set ts"
      "generate_training_fold ?e ?p [(''A'', 43)] d3 11 3 4 = Inl TypeError"
      "fold_loop ?e ?p [(''A'', 43)] 11 4 4 (single_label_pool, [], 0) = Inl TypeError"
    by blast
  have par: "folds ?p = 4" "fold_size ?p = 11" "grid_search_folds ?p = 0" "test_size ?p = 0"
    "games ?p = [''g1'']"
    by (simp_all add: four_folds_params_def sample_params_def)
  have thr: "(3 / 4) * (of_int (folds ?p) :: rat) \<le> 3" by (simp add: par)
  have gen: "generate_dataset ?e ?p [(''A'', 43)] single_label_pool False = Inl TypeError"
    using run(5) by (simp add: generate_dataset_def par and_then_def)
  have "construct_layered_dataset ?e ?p = Inl TypeError"
    by (simp add: construct_layered_dataset_def par single_label_info gen and_then_def)
  then have "ExperimentalData ?e ?p = Inl TypeError"
    by (simp add: ExperimentalData_def single_label_validate and_then_def)
  with run(1-4) thr gen show ?thesis by blast
qed

theorem generate_dataset_raises_at_three_of_four_witness:
  "permuting (reversing :: nat shuffler) \<and>
   fold_loop (single_label_env reversing) four_folds_params [(''A'', 43)] 11 4 3
     (single_label_pool, [], 0)
     = Inr (map (\<lambda>i. (i, ''A'')) [1..<11],
            [rev [33..<44], rev [22..<33], rev [11..<22]], 3) \<and>
   generate_training_fold (single_label_env reversing) four_folds_params [(''A'', 43)]
     (map (\<lambda>i. (i, ''A'')) [1..<11]) 11 3 4 = Inl TypeError \<and>
   generate_dataset (single_label_env reversing) four_folds_params [(''A'', 43)]
     single_label_pool False = Inl TypeError \<and>
   ExperimentalData (single_label_env reversing) four_folds_params = Inl TypeError"
proof -
  have a: "fold_loop (single_label_env reversing) four_folds_params [(''A'', 43)] 11 4 3
     (single_label_pool, [], 0)
     = Inr (map (\<lambda>i. (i, ''A'')) [1..<11],
            [rev [33..<44], rev [22..<33], rev [11..<22]], 3)"
    by code_simp
  from generate_dataset_raises_at_three_of_four [OF permuting_reversing] a permuting_reversing
  show ?thesis by auto
qed

section \<open>The even branch\<close>

lemma count_label_append: "count_label d l (xs @ ys) = count_label d l xs + count_label d l ys"
  by (simp add: count_label_def)

lemma count_label_mset: "mset xs = mset ys \<Longrightarrow> count_label d l xs = count_label d l ys"
proof -
  assume "mset xs = mset ys"
  then have "mset (filter (\<lambda>i. (i, l) \<in> set d) xs) = mset (filter (\<lambda>i. (i, l) \<in> set d) ys)"
    by (simp add: mset_filter)
  then show ?thesis unfolding count_label_def by (rule mset_eq_length)
qed

lemma count_label_of_label:
  assumes "distinct (map fst d)" and "set xs \<subseteq> {i. (i, label) \<in> set d}"
  shows "count_label d l xs = (if l = label then length xs else 0)"
proof (cases "l = label")
  case True
  then have "filter (\<lambda>i. (i, l) \<in> set d) xs = xs" using assms(2) by (auto simp: filter_id_conv)
  with True show ?thesis by (simp add: count_label_def)
next
  case False
  have "filter (\<lambda>i. (i, l) \<in> set d) xs = []"
  proof (rule ccontr)
    assume "filter (\<lambda>i. (i, l) \<in> set d) xs \<noteq> []"
    then obtain i where "i \<in> set xs" and a: "(i, l) \<in> set d"
      by (auto simp: filter_empty_conv)
    with assms(2) have b: "(i, label) \<in> set d" by auto
    from dict_key_unique [OF assms(1) a b] False show False by simp
  qed
  with False show ?thesis by (simp add: count_label_def)
qed

lemma shuffled_slice:
  assumes "permuting sh" and "distinct (map fst d)" and "0 \<le> m"
  shows "length (slice_to m (sh st (label_ids d label))) = min (nat m) (available d label)"
    and "count_label d l (slice_to m (sh st (label_ids d label)))
           = (if l = label then min (nat m) (available d label) else 0)"
proof -
  let ?ids = "sh st (label_ids d label)"
  show len: "length (slice_to m ?ids) = min (nat m) (available d label)"
    using assms(1,3) by (simp add: length_slice_to permuting_length available_def)
  have "set (slice_to m ?ids) \<subseteq> {i. (i, label) \<in> set d}"
    using set_slice_to [of m ?ids] assms(1) by (simp add: permuting_set set_label_ids)
  from count_label_of_label [OF assms(2) this] len
  show "count_label d l (slice_to m ?ids) = (if l = label then min (nat m) (available d label) else 0)"
    by simp
qed

lemma even_scan_Some:
  assumes "permuting sh" and "distinct (map fst d)" and "0 < m"
  shows "distinct labels \<Longrightarrow>
         \<exists>st' drawn. even_scan sh d n labels (st, Some m, acc) = Some (st', acc @ drawn) \<and>
           length drawn = sum_list (map (\<lambda>l. min (nat m) (available d l)) labels) \<and>
           (\<forall>l. count_label d l drawn
                  = (if l \<in> set labels then min (nat m) (available d l) else 0))"
proof (induction labels arbitrary: st acc)
  case Nil
  then show ?case by (simp add: count_label_def)
next
  case (Cons label rest)
  let ?ids = "sh st (label_ids d label)"
  let ?s = "slice_to m ?ids"
  have m0: "0 \<le> m" using assms(3) by simp
  note sl = shuffled_slice [OF assms(1,2) m0, where st = st and label = label]
  have step: "even_scan sh d n (label # rest) (st, Some m, acc)
              = even_scan sh d n rest (st @ [length (label_ids d label)], Some m, acc @ ?s)"
    using assms(3) by (simp add: Let_def prng_shuffle_def)
  from Cons.prems have dr: "distinct rest" and fresh: "label \<notin> set rest" by simp_all
  from Cons.IH [OF dr, of "st @ [length (label_ids d label)]" "acc @ ?s"]
  obtain st' drawn where
    r: "even_scan sh d n rest (st @ [length (label_ids d label)], Some m, acc @ ?s)
          = Some (st', (acc @ ?s) @ drawn)"
    and len: "length drawn = sum_list (map (\<lambda>l. min (nat m) (available d l)) rest)"
    and cnt: "\<forall>l. count_label d l drawn = (if l \<in> set rest then min (nat m) (available d l) else 0)"
    by blast
  show ?case
  proof (intro exI [of _ st'] exI [of _ "?s @ drawn"] conjI allI)
    show "even_scan sh d n (label # rest) (st, Some m, acc) = Some (st', acc @ ?s @ drawn)"
      using step r by simp
    show "length (?s @ drawn) = sum_list (map (\<lambda>l. min (nat m) (available d l)) (label # rest))"
      using len sl(1) by simp
    fix l
    show "count_label d l (?s @ drawn)
            = (if l \<in> set (label # rest) then min (nat m) (available d l) else 0)"
      using cnt sl(2) [where l = l] fresh by (auto simp: count_label_append)
  qed
qed

lemma even_scan_first:
  assumes "permuting sh" and "distinct (map fst d)" and "0 \<le> n" and "distinct (l1 # rest)"
  shows "if min (nat n) (available d l1) = 0
         then even_scan sh d n (l1 # rest) ([], None, []) = None
         else (\<exists>st' drawn. even_scan sh d n (l1 # rest) ([], None, []) = Some (st', drawn) \<and>
                length drawn = sum_list (map (\<lambda>l. min (min (nat n) (available d l1)) (available d l))
                                           (l1 # rest)) \<and>
                (\<forall>l. count_label d l drawn
                       = (if l \<in> set (l1 # rest)
                          then min (min (nat n) (available d l1)) (available d l) else 0)))"
proof (cases "min (nat n) (available d l1) = 0")
  case True
  have "length (slice_to n (sh [] (label_ids d l1))) = 0"
    using shuffled_slice(1) [OF assms(1,2,3), where st = "[]" and label = l1] True by simp
  then have "even_scan sh d n (l1 # rest) ([], None, []) = None"
    by (simp add: Let_def prng_shuffle_def)
  with True show ?thesis by (simp del: even_scan.simps)
next
  case False
  define k where "k = min (nat n) (available d l1)"
  define m where "m = int k"
  have k0: "0 < k" using False by (simp add: k_def)
  have m0: "0 < m" using k0 by (simp add: m_def)
  have nm: "nat m = k" by (simp add: m_def)
  let ?ids = "sh [] (label_ids d l1)"
  have act: "int (length (slice_to n ?ids)) = m"
    using shuffled_slice(1) [OF assms(1,2,3), where st = "[]" and label = l1]
    by (simp add: m_def k_def)
  have nonempty: "slice_to n ?ids \<noteq> []" using act m0 by auto
  have step: "even_scan sh d n (l1 # rest) ([], None, [])
              = even_scan sh d n rest ([length (label_ids d l1)], Some m, slice_to m ?ids)"
    using act m0 nonempty by (simp add: Let_def prng_shuffle_def)
  from assms(4) have dr: "distinct rest" and fresh: "l1 \<notin> set rest" by simp_all
  from even_scan_Some [OF assms(1,2) m0 dr, of n "[length (label_ids d l1)]" "slice_to m ?ids"]
  obtain st' drawn where
    r: "even_scan sh d n rest ([length (label_ids d l1)], Some m, slice_to m ?ids)
          = Some (st', slice_to m ?ids @ drawn)"
    and len: "length drawn = sum_list (map (\<lambda>l. min k (available d l)) rest)"
    and cnt: "\<forall>l. count_label d l drawn = (if l \<in> set rest then min k (available d l) else 0)"
    unfolding nm by blast
  have m0': "0 \<le> m" using m0 by simp
  note sl = shuffled_slice [OF assms(1,2) m0', where st = "[]" and label = l1, unfolded nm]
  have kk: "min k (available d l1) = k" by (simp add: k_def)
  have main: "\<exists>st' drawn. even_scan sh d n (l1 # rest) ([], None, []) = Some (st', drawn) \<and>
          length drawn = sum_list (map (\<lambda>l. min k (available d l)) (l1 # rest)) \<and>
          (\<forall>l. count_label d l drawn = (if l \<in> set (l1 # rest) then min k (available d l) else 0))"
  proof (intro exI [of _ st'] exI [of _ "slice_to m ?ids @ drawn"] conjI allI)
    show "even_scan sh d n (l1 # rest) ([], None, []) = Some (st', slice_to m ?ids @ drawn)"
      using step r by simp
    show "length (slice_to m ?ids @ drawn) = sum_list (map (\<lambda>l. min k (available d l)) (l1 # rest))"
      using len sl(1) by simp
    fix l
    show "count_label d l (slice_to m ?ids @ drawn)
            = (if l \<in> set (l1 # rest) then min k (available d l) else 0)"
      using cnt sl(2) [where l = l] fresh by (auto simp: count_label_append)
  qed
  show ?thesis using main [unfolded k_def] by (simp only: False if_False)
qed


lemma sort_shuffle_cut_no_cut:
  assumes "permuting (shuffle e)" and "int (length drawn) \<le> n"
  shows "\<exists>fld. sort_shuffle_cut e st drawn (PyInt n) = Inr fld \<and> mset fld = mset drawn"
proof -
  have "length (shuffle e st (sort drawn)) = length drawn"
    using assms(1) by (simp add: permuting_length)
  moreover have "\<not> (of_int n :: rat) < of_nat (length drawn)"
    using assms(2) by (metis of_int_le_iff of_int_of_nat_eq not_less)
  ultimately have "sort_shuffle_cut e st drawn (PyInt n) = Inr (shuffle e st (sort drawn))"
    by (simp add: sort_shuffle_cut_def Let_def prng_shuffle_def)
  moreover have "mset (shuffle e st (sort drawn)) = mset drawn"
    using assms(1) by (simp add: permuting_def)
  ultimately show ?thesis by blast
qed

lemma keys_pool_90_10: "map fst pool_90_10 = [0..<100]"
proof -
  have "map fst pool_90_10 = [0..<90] @ [90..<100]"
    by (simp add: pool_90_10_def o_def)
  also have "\<dots> = [0..<100]" using upt_add_eq_append [of 0 90 10] by simp
  finally show ?thesis .
qed

lemma available_pool_90_10:
  "available pool_90_10 ''A'' = 90" "available pool_90_10 ''B'' = 10"
  by (simp_all add: available_def label_ids_def pool_90_10_def o_def)

lemma labels_fdist_90_10: "labels_by_count fdist_90_10 = [''B'', ''A'']"
  by (simp add: labels_by_count_def fdist_90_10_def fd_count_def)

text \<open>
  The fold that the even branch returns.  The labels are taken in ascending order of their
  count in the distribution, and \<open>n = ceil(S / number of labels)\<close>.  The first label gives
  \<open>m = min(n, available)\<close> identifiers; when \<open>m\<close> is not 0 it is \<^verbatim>\<open>n_label_min\<close>, and every
  label gives \<open>min(m, available)\<close> identifiers: \<open>m\<close> of them, or all it has when those are
  fewer.  When these are no more than \<open>S\<close> in all, the cut at the end removes nothing and
  the fold has exactly these counts.
\<close>

lemma even_fold_counts:
  assumes perm: "permuting (shuffle e)" and dd: "distinct (map fst d)"
    and dfd: "distinct (map fst fd)" and S: "0 \<le> S" and even: "sampling p \<noteq> ''stratified''"
    and lbc: "labels_by_count fd = l1 # rest"
    and m: "m = min (nat \<lceil>(of_int S :: rat) / of_nat (length fd)\<rceil>) (available d l1)"
    and m0: "0 < m"
    and nocut: "int (sum_list (map (\<lambda>l. min m (available d l)) (l1 # rest))) \<le> S"
  shows "\<exists>fld d'. generate_training_fold e p fd d S c F = Inr (fld, d') \<and>
           length fld = sum_list (map (\<lambda>l. min m (available d l)) (l1 # rest)) \<and>
           (\<forall>l. count_label d l fld = (if l \<in> set (l1 # rest) then min m (available d l) else 0))"
proof -
  let ?n = "\<lceil>(of_int S :: rat) / of_nat (length fd)\<rceil>"
  have "(0 :: rat) \<le> of_int S / of_nat (length fd)" using S by simp
  then have "\<lceil>0 :: rat\<rceil> \<le> ?n" by (rule ceiling_mono)
  then have n0: "0 \<le> ?n" by (simp del: ceiling_less_iff ceiling_le_iff zero_le_ceiling)
  have dl: "distinct (l1 # rest)" using distinct_labels_by_count [OF dfd] lbc by simp
  have nz: "min (nat ?n) (available d l1) \<noteq> 0" using m m0 by simp
  from even_scan_first [OF perm dd n0 dl] obtain st drawn where
    scan: "even_scan (shuffle e) d ?n (l1 # rest) ([], None, []) = Some (st, drawn)"
    and len: "length drawn = sum_list (map (\<lambda>l. min m (available d l)) (l1 # rest))"
    and cnt: "\<forall>l. count_label d l drawn
                = (if l \<in> set (l1 # rest) then min m (available d l) else 0)"
    unfolding m [symmetric] using m0 by (simp only: nz [unfolded m [symmetric]] if_False) blast
  have good: "distinct drawn \<and> set drawn \<subseteq> fst ` set d"
  proof (rule even_scan_good [OF perm dd])
    show "distinct (l1 # rest)" by (rule dl)
    show "distinct ([] :: 'a list)" by simp
    show "\<forall>i \<in> set []. \<exists>l. (i, l) \<in> set d \<and> l \<notin> set (l1 # rest)" by simp
    show "even_scan (shuffle e) d ?n (l1 # rest) ([], None, []) = Some (st, drawn)" by (rule scan)
  qed
  from sort_shuffle_cut_no_cut [OF perm, of drawn S st] len nocut obtain fld where
    cut: "sort_shuffle_cut e st drawn (PyInt S) = Inr fld" and ms: "mset fld = mset drawn"
    by auto
  from good have "distinct drawn" and "set drawn \<subseteq> fst ` set d" by auto
  from cut_and_delete_succeeds [OF perm dd this cut] obtain d' where
    "and_then (sort_shuffle_cut e st drawn (PyInt S))
       (\<lambda>fold_set. and_then (del_all fold_set d) (\<lambda>d'. Inr (fold_set, d'))) = Inr (fld, d')"
    by blast
  then have run: "generate_training_fold e p fd d S c F = Inr (fld, d')"
    using even by (simp add: generate_training_fold_def lbc scan del: even_scan.simps)
  have "length fld = length drawn" using ms by (rule mset_eq_length)
  moreover have "\<forall>l. count_label d l fld = count_label d l drawn"
    by (simp add: count_label_mset [OF ms])
  ultimately show ?thesis using run len cnt by auto
qed

text \<open>
  When more identifiers are drawn than \<open>S\<close>, the cut takes the first \<open>S\<close> of the shuffled
  array, and the counts of the fold depend on the shuffle: with four identifiers for each
  of two labels and a fold size of 3, two are drawn for each label, and the shuffle that
  reverses keeps one of A and two of B.
\<close>

lemma even_fold_cut:
  "generate_training_fold (sample_env reversing) (sample_params\<lparr>sampling := ''even''\<rparr>)
     [(''A'', 4), (''B'', 4)]
     [(1, ''A''), (2, ''A''), (3, ''A''), (4, ''A''), (5, ''B''), (6, ''B''), (7, ''B''), (8, ''B'')]
     3 0 1
   = Inr ([8, 7, 4],
          [(1, ''A''), (2, ''A''), (3, ''A''), (5, ''B''), (6, ''B'')])"
  by code_simp

text \<open>
  With 90 identifiers of label A, 10 of label B and a fold size of 20, the fold has 10
  identifiers of A and 10 of B.
\<close>

lemma even_fold_90_10:
  assumes "permuting (shuffle e)" and "sampling p \<noteq> ''stratified''"
  shows "\<exists>fld d'. generate_training_fold e p fdist_90_10 pool_90_10 20 c F = Inr (fld, d') \<and>
           count_label pool_90_10 ''A'' fld = 10 \<and> count_label pool_90_10 ''B'' fld = 10"
proof -
  have dk: "distinct (map fst pool_90_10)" by (simp add: keys_pool_90_10)
  have dfd: "distinct (map fst fdist_90_10)" by (simp add: fdist_90_10_def)
  have m: "(10 :: nat) = min (nat \<lceil>(of_int 20 :: rat) / of_nat (length fdist_90_10)\<rceil>)
                            (available pool_90_10 ''B'')"
    by (simp add: fdist_90_10_def available_pool_90_10)
  have nocut: "int (sum_list (map (\<lambda>l. min 10 (available pool_90_10 l)) [''B'', ''A''])) \<le> 20"
    by (simp add: available_pool_90_10)
  from even_fold_counts [OF assms(1) dk dfd _ assms(2) labels_fdist_90_10 m _ nocut, of c F]
  obtain fld d' where
    run: "generate_training_fold e p fdist_90_10 pool_90_10 20 c F = Inr (fld, d')"
    and cnt: "\<forall>l. count_label pool_90_10 l fld
                = (if l \<in> set [''B'', ''A''] then min 10 (available pool_90_10 l) else 0)"
    by auto
  from cnt have "count_label pool_90_10 ''A'' fld = 10" and "count_label pool_90_10 ''B'' fld = 10"
    by (simp_all add: available_pool_90_10)
  with run show ?thesis by blast
qed

text \<open>
  C6, on the code.  The distribution counts two documents of label A and three of label
  B, so A is the first label of the loop; the dictionary still has both identifiers of A
  and one of B, and a fold of 4 is asked for, 2 for each label.  A gives 2 identifiers and
  sets \<^verbatim>\<open>n_label_min\<close> to 2; B has one identifier left and gives it.  The fold that is
  returned has two identifiers of A and one of B: the labels do not contribute the same
  count, and the label that runs out does not lower the count of the other.  This holds
  for every shuffle that rearranges.
\<close>

theorem even_mode_cap_set_by_first_label:
  assumes "permuting (shuffle e)" and "sampling p \<noteq> ''stratified''"
  shows "labels_by_count [(''A'', 2), (''B'', 3 :: nat)] = [''A'', ''B''] \<and>
         available [(1 :: nat, ''A''), (2, ''A''), (3, ''B'')] ''A'' = 2 \<and>
         available [(1 :: nat, ''A''), (2, ''A''), (3, ''B'')] ''B'' = 1 \<and>
         (\<exists>fld d'. generate_training_fold e p [(''A'', 2), (''B'', 3)]
                      [(1 :: nat, ''A''), (2, ''A''), (3, ''B'')] 4 c F = Inr (fld, d') \<and>
                    length fld = 3 \<and>
                    count_label [(1, ''A''), (2, ''A''), (3, ''B'')] ''A'' fld = 2 \<and>
                    count_label [(1, ''A''), (2, ''A''), (3, ''B'')] ''B'' fld = 1)"
proof -
  define d :: "(nat \<times> string) list" where "d = [(1, ''A''), (2, ''A''), (3, ''B'')]"
  define fd :: "string freqdist" where "fd = [(''A'', 2), (''B'', 3)]"
  have lbc: "labels_by_count fd = [''A'', ''B'']"
    by (simp add: labels_by_count_def fd_count_def fd_def)
  have av: "available d ''A'' = 2" "available d ''B'' = 1"
    by (simp_all add: available_def label_ids_def d_def)
  have dk: "distinct (map fst d)" by (simp add: d_def)
  have dfd: "distinct (map fst fd)" by (simp add: fd_def)
  have m: "(2 :: nat) = min (nat \<lceil>(of_int 4 :: rat) / of_nat (length fd)\<rceil>) (available d ''A'')"
    by (simp add: fd_def av)
  have nocut: "int (sum_list (map (\<lambda>l. min 2 (available d l)) [''A'', ''B''])) \<le> 4"
    by (simp add: av)
  from even_fold_counts [OF assms(1) dk dfd _ assms(2) lbc m _ nocut, of c F]
  obtain fld d' where
    run: "generate_training_fold e p fd d 4 c F = Inr (fld, d')"
    and len: "length fld = sum_list (map (\<lambda>l. min 2 (available d l)) [''A'', ''B''])"
    and cnt: "\<forall>l. count_label d l fld
                = (if l \<in> set [''A'', ''B''] then min 2 (available d l) else 0)"
    by auto
  from cnt have "count_label d ''A'' fld = 2" and "count_label d ''B'' fld = 1"
    by (simp_all add: av)
  moreover from len have "length fld = 3" by (simp add: av)
  ultimately show ?thesis using run lbc av unfolding d_def fd_def by blast
qed

theorem even_mode_cap_set_by_first_label_witness:
  "permuting (shuffle (uneven_env reversing)) \<and>
   sampling uneven_params \<noteq> ''stratified'' \<and>
   ExperimentalData (uneven_env reversing) uneven_params =
     Inr \<lparr> test_set = Some [11, 10, 5, 4], training_set = [[3, 2, 1]],
           grid_search_set = None, num_datasets = 1, id_strings_labels = [],
           labels_fdist = [(''A'', 2), (''B'', 3)] \<rparr> \<and>
   generate_training_fold (uneven_env reversing) uneven_params [(''A'', 2), (''B'', 3)]
     [(1, ''A''), (2, ''A''), (3, ''B'')] 4 0 1 = Inr ([3, 2, 1], []) \<and>
   count_label [(1 :: nat, ''A''), (2, ''A''), (3, ''B'')] ''A'' [3, 2, 1] = 2 \<and>
   count_label [(1 :: nat, ''A''), (2, ''A''), (3, ''B'')] ''B'' [3, 2, 1] = 1"
proof -
  have h1: "permuting (shuffle (uneven_env reversing))"
    by (simp add: uneven_env_def sample_env_def permuting_reversing)
  have h2: "sampling uneven_params \<noteq> ''stratified''"
    by (simp add: uneven_params_def)
  have run: "ExperimentalData (uneven_env reversing) uneven_params =
     Inr \<lparr> test_set = Some [11, 10, 5, 4], training_set = [[3, 2, 1]],
           grid_search_set = None, num_datasets = 1, id_strings_labels = [],
           labels_fdist = [(''A'', 2), (''B'', 3)] \<rparr>"
    by code_simp
  have fold: "generate_training_fold (uneven_env reversing) uneven_params [(''A'', 2), (''B'', 3)]
     [(1, ''A''), (2, ''A''), (3, ''B'')] 4 0 1 = Inr ([3, 2, 1], [])"
    by code_simp
  from even_mode_cap_set_by_first_label [OF h1 h2, of 0 1] fold
  have "count_label [(1 :: nat, ''A''), (2, ''A''), (3, ''B'')] ''A'' [3, 2, 1] = 2 \<and>
        count_label [(1 :: nat, ''A''), (2, ''A''), (3, ''B'')] ''B'' [3, 2, 1] = 1"
    by auto
  with h1 h2 run fold show ?thesis by blast
qed

end
